theory Spec2Isabelle
  imports Complex_Main
begin

section \<open>Strings and regular expressions of the content script\<close>

text \<open>
  JavaScript strings are modelled as \<^typ>\<open>string\<close> (ASCII text). The helpers below are
  the string methods the content script calls: \<open>toLowerCase\<close>, \<open>trim\<close>,
  \<open>includes\<close>, and \<open>RegExp.test\<close> for the regular expressions that occur in
  \<^verbatim>\<open>src/contentScript.ts\<close>.
\<close>

fun lower_char :: "char \<Rightarrow> char" where
  "lower_char (Char b0 b1 b2 b3 b4 b5 b6 b7) =
     (if 65 \<le> (of_char (Char b0 b1 b2 b3 b4 b5 b6 b7) :: nat)
         \<and> (of_char (Char b0 b1 b2 b3 b4 b5 b6 b7) :: nat) \<le> 90
      then Char b0 b1 b2 b3 b4 True b6 b7
      else Char b0 b1 b2 b3 b4 b5 b6 b7)"

definition toLowerCase :: "string \<Rightarrow> string" where
  "toLowerCase s = map lower_char s"

text \<open>White space as \<open>String.prototype.trim\<close> and the class \<open>\s\<close> see it, within ASCII:
  tab, line feed, vertical tab, form feed, carriage return and space.\<close>

definition is_space :: "char \<Rightarrow> bool" where
  "is_space c = ((of_char c :: nat) \<in> {9, 10, 11, 12, 13, 32})"

definition is_line_terminator :: "char \<Rightarrow> bool" where
  "is_line_terminator c = ((of_char c :: nat) \<in> {10, 13})"

definition trim :: "string \<Rightarrow> string" where
  "trim s = rev (dropWhile is_space (rev (dropWhile is_space s)))"

text \<open>\<open>match_at p s\<close>: the literal \<open>p\<close> occurs at the start of \<open>s\<close>.\<close>

fun match_at :: "string \<Rightarrow> string \<Rightarrow> bool" where
  "match_at [] s = True"
| "match_at (p # ps) [] = False"
| "match_at (p # ps) (c # cs) = (if p = c then match_at ps cs else False)"

text \<open>\<open>str_includes s sub\<close> is \<open>s.includes(sub)\<close>.\<close>

fun str_includes :: "string \<Rightarrow> string \<Rightarrow> bool" where
  "str_includes [] sub = (sub = [])"
| "str_includes (c # cs) sub = (if match_at sub (c # cs) then True else str_includes cs sub)"

text \<open>
  Every regular expression of the content script is a sequence of literal pieces joined by
  \<open>.*\<close>, with the flag \<open>i\<close>: the label patterns of the field table, the patterns of
  \<open>valueMappings\<close>, and the escaped literal built by the fallback of the choice-group
  writer. A regular expression is therefore the list of its literal pieces. The dot does not
  match a line terminator.
\<close>

type_synonym regex = "string list"

fun match_rest :: "string list \<Rightarrow> string \<Rightarrow> bool" where
  "match_rest [] s = True"
| "match_rest (p # ps) [] = (p = [] \<and> match_rest ps [])"
| "match_rest (p # ps) (c # cs) =
     (if (if match_at p (c # cs) then match_rest ps (drop (length p) (c # cs)) else False)
      then True
      else if is_line_terminator c then False
      else match_rest (p # ps) cs)"

fun regex_search :: "string list \<Rightarrow> string \<Rightarrow> bool" where
  "regex_search [] s = True"
| "regex_search (p # ps) [] = (p = [] \<and> match_rest ps [])"
| "regex_search (p # ps) (c # cs) =
     (if (if match_at p (c # cs) then match_rest ps (drop (length p) (c # cs)) else False)
      then True
      else regex_search (p # ps) cs)"

text \<open>\<open>regex_test r s\<close> is \<open>r.test(s)\<close> for a case-insensitive \<open>r\<close>.\<close>

definition regex_test :: "regex \<Rightarrow> string \<Rightarrow> bool" where
  "regex_test r s = regex_search (map toLowerCase r) (toLowerCase s)"

text \<open>\<open>normalizeText\<close> of \<open>findFieldByLabel\<close>: runs of white space become one space,
  then newline, carriage return and tab become a space, then trim and lower case.\<close>

fun collapse_from :: "bool \<Rightarrow> string \<Rightarrow> string" where
  "collapse_from in_run [] = []"
| "collapse_from in_run (c # cs) =
     (if is_space c
      then (if in_run then collapse_from True cs else CHR '' '' # collapse_from True cs)
      else c # collapse_from False cs)"

definition collapse_spaces :: "string \<Rightarrow> string" where
  "collapse_spaces text = collapse_from False text"

definition normalizeText :: "string \<Rightarrow> string" where
  "normalizeText text =
     toLowerCase (trim (map (\<lambda>c. if (of_char c :: nat) \<in> {10, 13, 9} then CHR '' '' else c)
       (collapse_spaces text)))"

section \<open>The document\<close>

text \<open>
  The host page is modelled by what the content script reads and writes in it. The document is
  the list of its \<open>.form-group\<close> elements in document order. Of each form group the model
  keeps the text of its \<open>.label-set\<close> element, the text-entry element the text writer finds
  (\<open>input.free-text\<close>, else \<open>input[type="text"]\<close>, else \<open>textarea\<close>, else an input whose
  id contains \<open>answerTextBox\<close>), its \<open>select\<close>, its radio inputs, and the annotation
  the review annotator leaves on it. The events the writers dispatch are not part of the state.
\<close>

record text_input =
  input_value :: string
  data_autofilled :: bool

record select_option =
  option_text :: string
  option_value :: string

record select_control =
  select_options :: "select_option list"
  select_value :: string

text \<open>A radio input: its \<open>name\<close> (radios of one name form one radio button group), the text
  of \<open>radio.closest('label') || radio.parentElement\<close>, and whether it is checked.\<close>

record radio_input =
  radio_name :: string
  radio_label :: string
  radio_checked :: bool

text \<open>The tooltip texts of the annotator. The two low-confidence texts show
  \<open>Math.round(confidence * 100)\<close>; the model keeps the confidence itself.\<close>

datatype tooltip =
    DescriptionLowConfidence real
  | LowConfidence real
  | FillManually
  | SelectManually
  | NoMatchingOption string

datatype outline = LowConfidenceOutline | UnknownOutline

record form_group =
  label_set :: "string option"
  text_field :: "text_input option"
  select_field :: "select_control option"
  radios :: "radio_input list"
  outline_style :: "outline option"
  low_warning :: "tooltip option"
  unknown_warning :: "tooltip option"

type_synonym document = "form_group list"

section \<open>Review annotator\<close>

definition markLowConfidenceField :: "form_group \<Rightarrow> tooltip \<Rightarrow> form_group" where
  "markLowConfidenceField container tooltipText =
     container\<lparr>outline_style := Some LowConfidenceOutline, low_warning := Some tooltipText\<rparr>"

definition markUnknownField :: "form_group \<Rightarrow> tooltip \<Rightarrow> form_group" where
  "markUnknownField container tooltipText =
     container\<lparr>outline_style := Some UnknownOutline, unknown_warning := Some tooltipText\<rparr>"

section \<open>Field locator\<close>

text \<open>
  \<open>findFieldByLabel\<close> walks its label selectors and then every form group; each walk tests
  a label text in normalised and in raw form and returns the enclosing form group of the first
  label that matches. With one \<open>.label-set\<close> per form group all walks visit the same labels
  in the same order, so the result is the first form group whose label matches.
\<close>

definition label_matches :: "regex \<Rightarrow> string \<Rightarrow> bool" where
  "label_matches labelPattern rawText =
     (if regex_test labelPattern (normalizeText rawText) then True
      else regex_test labelPattern rawText)"

fun find_group :: "regex \<Rightarrow> document \<Rightarrow> nat \<Rightarrow> nat option" where
  "find_group labelPattern [] i = None"
| "find_group labelPattern (g # gs) i =
     (case label_set g of
        Some rawText \<Rightarrow>
          if label_matches labelPattern rawText then Some i
          else find_group labelPattern gs (Suc i)
      | None \<Rightarrow> find_group labelPattern gs (Suc i))"

definition findFieldByLabel :: "regex \<Rightarrow> document \<Rightarrow> nat option" where
  "findFieldByLabel labelPattern doc = find_group labelPattern doc 0"

section \<open>Confidence policy\<close>

definition CONFIDENCE_THRESHOLD :: real where
  "CONFIDENCE_THRESHOLD = 0.8"

definition UNKNOWN_THRESHOLD :: real where
  "UNKNOWN_THRESHOLD = 0.5"

definition is_unknown_marker :: "string \<Rightarrow> bool" where
  "is_unknown_marker lowerValue =
     (lowerValue = ''n/a'' \<or> lowerValue = ''na'' \<or> lowerValue = ''none'' \<or> lowerValue = ''unknown'')"

definition isUnknownValue :: "string \<Rightarrow> real \<Rightarrow> bool" where
  "isUnknownValue v confidence =
     (if v = [] \<or> trim v = [] then True
      else if is_unknown_marker (trim (toLowerCase v)) then True
      else if confidence < UNKNOWN_THRESHOLD then True
      else False)"

section \<open>Field writers\<close>

record FillResult =
  fieldName :: string
  filled :: bool
  confidence :: real
  fill_value :: "string option"
  needsReview :: bool

definition not_filled :: "string \<Rightarrow> bool \<Rightarrow> FillResult" where
  "not_filled name review =
     \<lparr>fieldName = name, filled = False, confidence = 0, fill_value = None, needsReview = review\<rparr>"

text \<open>The test \<open>input.value && input.value.trim() !== '' && !input.hasAttribute('data-autofilled')\<close>.\<close>

definition holds_foreign_value :: "text_input \<Rightarrow> bool" where
  "holds_foreign_value inp =
     (input_value inp \<noteq> [] \<and> trim (input_value inp) \<noteq> [] \<and> \<not> data_autofilled inp)"

definition write_text :: "form_group \<Rightarrow> string \<Rightarrow> form_group" where
  "write_text g v = g\<lparr>text_field := Some \<lparr>input_value = v, data_autofilled = True\<rparr>\<rparr>"

definition fillTextFieldByPattern ::
  "regex \<Rightarrow> string \<Rightarrow> string \<Rightarrow> real \<Rightarrow> bool \<Rightarrow> document \<Rightarrow> FillResult \<times> document" where
  "fillTextFieldByPattern labelPattern name v conf alwaysFillIfNotEmpty doc =
     (case findFieldByLabel labelPattern doc of
        None \<Rightarrow> (not_filled name False, doc)
      | Some i \<Rightarrow>
          let formGroup = doc ! i in
          (case text_field formGroup of
             None \<Rightarrow> (not_filled name False, doc)
           | Some inp \<Rightarrow>
               if alwaysFillIfNotEmpty \<and> v \<noteq> [] \<and> trim v \<noteq> []
                  \<and> \<not> is_unknown_marker (trim (toLowerCase v))
               then
                 (if holds_foreign_value inp then (not_filled name False, doc)
                  else
                    let g1 = write_text formGroup v;
                        review = (conf < CONFIDENCE_THRESHOLD);
                        g2 = (if review
                              then markLowConfidenceField g1 (DescriptionLowConfidence conf)
                              else g1)
                    in (\<lparr>fieldName = name, filled = True, confidence = conf,
                          fill_value = Some v, needsReview = review\<rparr>, doc[i := g2]))
               else if isUnknownValue v conf
               then (not_filled name True, doc[i := markUnknownField formGroup FillManually])
               else if holds_foreign_value inp then (not_filled name False, doc)
               else
                 let g1 = write_text formGroup v;
                     review = (conf < CONFIDENCE_THRESHOLD);
                     g2 = (if review then markLowConfidenceField g1 (LowConfidence conf) else g1)
                 in (\<lparr>fieldName = name, filled = True, confidence = conf,
                       fill_value = Some v, needsReview = review\<rparr>, doc[i := g2])))"

text \<open>\<open>options.find\<close> with the two-way containment test of the single-select writer.\<close>

definition option_matches :: "string \<Rightarrow> select_option \<Rightarrow> bool" where
  "option_matches v opt =
     (if str_includes (toLowerCase (option_text opt)) (toLowerCase v) then True
      else str_includes (toLowerCase v) (toLowerCase (option_text opt)))"

definition fillDropdownByPattern ::
  "regex \<Rightarrow> string \<Rightarrow> string \<Rightarrow> real \<Rightarrow> document \<Rightarrow> FillResult \<times> document" where
  "fillDropdownByPattern labelPattern name v conf doc =
     (case findFieldByLabel labelPattern doc of
        None \<Rightarrow> (not_filled name False, doc)
      | Some i \<Rightarrow>
          let formGroup = doc ! i in
          (case select_field formGroup of
             None \<Rightarrow> (not_filled name False, doc)
           | Some sel \<Rightarrow>
               if isUnknownValue v conf
               then (not_filled name True, doc[i := markUnknownField formGroup SelectManually])
               else
                 (case find (option_matches v) (select_options sel) of
                    Some matchingOption \<Rightarrow>
                      if option_value matchingOption \<noteq> ''-1''
                      then
                        let g1 = formGroup\<lparr>select_field :=
                                   Some (sel\<lparr>select_value := option_value matchingOption\<rparr>)\<rparr>;
                            review = (conf < CONFIDENCE_THRESHOLD);
                            g2 = (if review then markLowConfidenceField g1 (LowConfidence conf)
                                  else g1)
                        in (\<lparr>fieldName = name, filled = True, confidence = conf,
                              fill_value = Some (if option_text matchingOption \<noteq> []
                                                 then option_text matchingOption else v),
                              needsReview = review\<rparr>, doc[i := g2])
                      else (not_filled name True,
                            doc[i := markUnknownField formGroup (NoMatchingOption v)])
                  | None \<Rightarrow> (not_filled name True,
                             doc[i := markUnknownField formGroup (NoMatchingOption v)]))))"

text \<open>
  The choice-group writer looks its patterns up with \<open>valueMappings[fieldName]?.[value]\<close>.
  The field name is one of the two own keys of \<open>valueMappings\<close>, the two names the field
  table passes. The value indexes an object literal, so a value that is not an own key but
  names a member of \<open>Object.prototype\<close> yields that inherited member: a function, with
  its \<open>length\<close>, or for \<open>__proto__\<close> the prototype object, which has none.
\<close>

datatype radio_field = PaymentMethod | PurchaseType

fun field_name :: "radio_field \<Rightarrow> string" where
  "field_name PaymentMethod = ''Payment Method''"
| "field_name PurchaseType = ''Purchase Type''"

datatype js_lookup = Patterns "regex list" | Inherited "nat option" | Undefined

definition object_prototype_member :: "string \<Rightarrow> nat option option" where
  "object_prototype_member v =
     (if v = ''constructor'' \<or> v = ''hasOwnProperty'' \<or> v = ''isPrototypeOf''
         \<or> v = ''propertyIsEnumerable'' \<or> v = ''__lookupGetter__'' \<or> v = ''__lookupSetter__''
      then Some (Some 1)
      else if v = ''__defineGetter__'' \<or> v = ''__defineSetter__'' then Some (Some 2)
      else if v = ''toString'' \<or> v = ''toLocaleString'' \<or> v = ''valueOf'' then Some (Some 0)
      else if v = ''__proto__'' then Some None
      else None)"

definition own_patterns :: "radio_field \<Rightarrow> string \<Rightarrow> regex list option" where
  "own_patterns field v =
     (case field of
        PaymentMethod \<Rightarrow>
          (if v = ''club_card_no_extra''
           then Some [[''club spending card'', ''without'', ''additional funding''],
                      [''club spending card'', ''no'', ''extra'']]
           else if v = ''club_card_with_extra''
           then Some [[''club spending card'', ''with'', ''additional funding''],
                      [''club spending card'', ''with'', ''extra'']]
           else if v = ''out_of_pocket'' then Some [[''out of pocket'']]
           else None)
      | PurchaseType \<Rightarrow>
          (if v = ''food'' then Some [[''food'']]
           else if v = ''apparel'' then Some [[''apparel''], [''clothing'']]
           else if v = ''subscription'' then Some [[''subscription'']]
           else if v = ''other'' then Some [[''other'']]
           else None))"

definition valueMappings :: "radio_field \<Rightarrow> string \<Rightarrow> js_lookup" where
  "valueMappings field v =
     (case own_patterns field v of
        Some patterns \<Rightarrow> Patterns patterns
      | None \<Rightarrow>
          (case object_prototype_member v of
             Some len \<Rightarrow> Inherited len
           | None \<Rightarrow> Undefined))"

text \<open>
  \<open>let patterns = valueMappings[fieldName]?.[value] || []\<close> and the fallback taken when
  \<open>patterns.length === 0\<close>, which replaces \<open>patterns\<close> by the escaped value as a literal
  pattern. The result is \<open>None\<close> when \<open>patterns\<close> is then no array: the inherited member
  is truthy, its \<open>length\<close> is not 0, and \<open>patterns.some\<close> is not a function.
\<close>

definition radio_patterns :: "radio_field \<Rightarrow> string \<Rightarrow> regex list option" where
  "radio_patterns field v =
     (case valueMappings field v of
        Patterns patterns \<Rightarrow> Some (if patterns = [] then [[v]] else patterns)
      | Undefined \<Rightarrow> Some [[v]]
      | Inherited len \<Rightarrow> (if len = Some 0 then Some [[v]] else None))"

datatype js_error = TypeError

text \<open>Index of the first radio whose label text matches one of the patterns.\<close>

fun find_radio :: "regex list \<Rightarrow> radio_input list \<Rightarrow> nat \<Rightarrow> nat option" where
  "find_radio patterns [] k = None"
| "find_radio patterns (r # rs) k =
     (if list_ex (\<lambda>pattern. regex_test pattern (radio_label r)) patterns then Some k
      else find_radio patterns rs (Suc k))"

text \<open>\<open>radio.checked = true\<close>: the radio becomes checked, and the browser unchecks the other
  radios of its radio button group, those of the same non-empty name anywhere in the form.\<close>

definition uncheck_group :: "string \<Rightarrow> form_group \<Rightarrow> form_group" where
  "uncheck_group rname g =
     g\<lparr>radios := map (\<lambda>r. if rname \<noteq> [] \<and> radio_name r = rname
                             then r\<lparr>radio_checked := False\<rparr> else r) (radios g)\<rparr>"

definition set_checked :: "nat \<Rightarrow> nat \<Rightarrow> document \<Rightarrow> document" where
  "set_checked i k doc =
     (let rname = radio_name (radios (doc ! i) ! k);
          doc1 = map (uncheck_group rname) doc;
          g = doc1 ! i
      in doc1[i := g\<lparr>radios := (radios g)[k := (radios g ! k)\<lparr>radio_checked := True\<rparr>]\<rparr>])"

text \<open>The choice-group writer. It throws in the loop over the radios, at the first call of
  \<open>patterns.some\<close>, when \<open>patterns\<close> is no array; nothing has been written by then.\<close>

definition fillRadioGroupByPattern ::
  "regex \<Rightarrow> radio_field \<Rightarrow> string \<Rightarrow> real \<Rightarrow> document \<Rightarrow> js_error + (FillResult \<times> document)" where
  "fillRadioGroupByPattern labelPattern field v conf doc =
     (case findFieldByLabel labelPattern doc of
        None \<Rightarrow> Inr (not_filled (field_name field) False, doc)
      | Some i \<Rightarrow>
          let formGroup = doc ! i in
          if radios formGroup = [] then Inr (not_filled (field_name field) False, doc)
          else if isUnknownValue v conf
          then Inr (not_filled (field_name field) True,
                    doc[i := markUnknownField formGroup SelectManually])
          else
            (case radio_patterns field v of
               None \<Rightarrow> Inl TypeError
             | Some patterns \<Rightarrow>
                 (case find_radio patterns (radios formGroup) 0 of
                    Some k \<Rightarrow>
                      let doc1 = set_checked i k doc;
                          review = (conf < CONFIDENCE_THRESHOLD);
                          doc2 = (if review
                                  then doc1[i := markLowConfidenceField (doc1 ! i)
                                                   (LowConfidence conf)]
                                  else doc1)
                      in Inr (\<lparr>fieldName = field_name field, filled = True, confidence = conf,
                                fill_value = Some (trim (radio_label (radios formGroup ! k))),
                                needsReview = review\<rparr>, doc2)
                  | None \<Rightarrow> Inr (not_filled (field_name field) True,
                                  doc[i := markUnknownField formGroup (NoMatchingOption v)]))))"

section \<open>Date formatting\<close>

text \<open>
  \<open>formatDate\<close> hands any string that is not already of the shape \<open>MM/DD/YYYY\<close> to the
  browser's \<open>Date\<close>. The parser and the local time zone belong to the browser, so the model
  takes them as a parameter: \<open>parse s\<close> is \<open>None\<close> when \<open>new Date(s).getTime()\<close> is NaN,
  and otherwise holds \<open>getFullYear()\<close>, \<open>getMonth()\<close> (from 0) and \<open>getDate()\<close>.
\<close>

record local_date =
  full_year :: int
  month0 :: nat
  day_of_month :: nat

type_synonym date_parser = "string \<Rightarrow> local_date option"

text \<open>The decimal digit of a number below ten.\<close>

definition digit_char :: "nat \<Rightarrow> char" where
  "digit_char n = ''0123456789'' ! n"

fun show_nat :: "nat \<Rightarrow> string" where
  "show_nat n = (if n < 10 then [digit_char n] else show_nat (n div 10) @ [digit_char (n mod 10)])"

declare show_nat.simps [simp del]

definition show_int :: "int \<Rightarrow> string" where
  "show_int k = (if k < 0 then CHR ''-'' # show_nat (nat (- k)) else show_nat (nat k))"

text \<open>\<open>s.padStart(2, '0')\<close>.\<close>

definition pad2 :: "string \<Rightarrow> string" where
  "pad2 s = replicate (2 - length s) CHR ''0'' @ s"

definition is_digit :: "char \<Rightarrow> bool" where
  "is_digit c = (48 \<le> (of_char c :: nat) \<and> (of_char c :: nat) \<le> 57)"

text \<open>The test \<^verbatim>\<open>/^\d{2}\/\d{2}\/\d{4}$/\<close>.\<close>

definition is_mmddyyyy :: "string \<Rightarrow> bool" where
  "is_mmddyyyy s =
     (case s of
        [m1, m2, s1, d1, d2, s2, y1, y2, y3, y4] \<Rightarrow>
          is_digit m1 \<and> is_digit m2 \<and> s1 = CHR ''/'' \<and> is_digit d1 \<and> is_digit d2
          \<and> s2 = CHR ''/'' \<and> is_digit y1 \<and> is_digit y2 \<and> is_digit y3 \<and> is_digit y4
      | _ \<Rightarrow> False)"

definition formatDate :: "date_parser \<Rightarrow> string \<Rightarrow> string" where
  "formatDate parse dateStr =
     (if dateStr = [] then []
      else if is_mmddyyyy dateStr then dateStr
      else (case parse dateStr of
              Some d \<Rightarrow>
                pad2 (show_nat (month0 d + 1)) @ ''/'' @ pad2 (show_nat (day_of_month d))
                  @ ''/'' @ show_int (full_year d)
            | None \<Rightarrow> dateStr))"

section \<open>Form fill orchestrator\<close>

text \<open>
  The parsed record reaches the content script as a message. A property that the object lacks
  reads as \<open>undefined\<close>, and the handler's \<open>data.f.value\<close> then throws a TypeError before
  the writer is called; such a property is \<open>None\<close> here. \<open>total_amount\<close> holds
  \<open>String(data.total_amount.value)\<close>, the text the handler passes on.
\<close>

record parsed_field =
  pf_value :: string
  pf_confidence :: real

record ParsedExpenseData =
  purchaser_name :: "parsed_field option"
  netid :: "parsed_field option"
  club_name :: "parsed_field option"
  payment_method :: "parsed_field option"
  vendor_name :: "parsed_field option"
  date_of_expense :: "parsed_field option"
  total_amount :: "parsed_field option"
  purchase_type :: "parsed_field option"
  event_link :: "parsed_field option"
  description :: "parsed_field option"

record FillSummary =
  results :: "FillResult list"
  totalFields :: nat
  filledFields :: nat
  lowConfidenceFields :: nat

text \<open>A handler of the field table: it throws, leaving the document as it is at the throw, or
  returns a result (or null) and the document it has written.\<close>

type_synonym handler = "document \<Rightarrow> (js_error \<times> document) + (FillResult option \<times> document)"

text \<open>The body of a handler: it reads the record property, which throws when the property
  is absent, and calls the writer. A writer that throws has written nothing by then.\<close>

definition call_writer ::
  "parsed_field option
     \<Rightarrow> (string \<Rightarrow> real \<Rightarrow> document \<Rightarrow> js_error + (FillResult \<times> document)) \<Rightarrow> handler" where
  "call_writer field writer doc =
     (case field of
        None \<Rightarrow> Inl (TypeError, doc)
      | Some f \<Rightarrow>
          (case writer (pf_value f) (pf_confidence f) doc of
             Inl error \<Rightarrow> Inl (error, doc)
           | Inr (result, doc') \<Rightarrow> Inr (Some result, doc')))"

definition fieldMappings :: "date_parser \<Rightarrow> ParsedExpenseData \<Rightarrow> (regex \<times> string \<times> handler) list" where
  "fieldMappings parse data =
     [([''Purchaser Name''], ''Purchaser Name'',
         call_writer (purchaser_name data)
           (\<lambda>v c d. Inr (fillTextFieldByPattern [''Purchaser Name''] ''Purchaser Name'' v c False d))),
      ([''Purchaser's NetID''], ''NetID'',
         call_writer (netid data)
           (\<lambda>v c d. Inr (fillTextFieldByPattern [''Purchaser's NetID''] ''NetID'' v c False d))),
      ([''Club/Organization''], ''Club/Organization'',
         call_writer (club_name data)
           (\<lambda>v c d. Inr (fillDropdownByPattern [''Club/Organization''] ''Club/Organization'' v c d))),
      ([''Payment Method''], ''Payment Method'',
         call_writer (payment_method data)
           (\<lambda>v c. fillRadioGroupByPattern [''Payment Method''] PaymentMethod v c)),
      ([''Vendor Name''], ''Vendor Name'',
         call_writer (vendor_name data)
           (\<lambda>v c d. Inr (fillTextFieldByPattern [''Vendor Name''] ''Vendor Name'' v c False d))),
      ([''Date of Expense''], ''Date of Expense'',
         call_writer (date_of_expense data)
           (\<lambda>v c d. Inr (fillTextFieldByPattern [''Date of Expense''] ''Date of Expense''
                            (formatDate parse v) c False d))),
      ([''Expense Amount''], ''Expense Amount'',
         call_writer (total_amount data)
           (\<lambda>v c d. Inr (fillTextFieldByPattern [''Expense Amount''] ''Expense Amount'' v c False d))),
      ([''Purchase Type''], ''Purchase Type'',
         call_writer (purchase_type data)
           (\<lambda>v c. fillRadioGroupByPattern [''Purchase Type''] PurchaseType v c)),
      ([''Include the link to the applicable NYU Engage event''], ''Event Link'',
         call_writer (event_link data)
           (\<lambda>v c d. Inr (fillTextFieldByPattern [''Include the link'', ''NYU Engage event'']
                            ''Event Link'' v c False d))),
      ([''In a few sentences'', ''describe the reason for the purchase''], ''Description'',
         call_writer (description data)
           (\<lambda>v c d. Inr (fillTextFieldByPattern
                            [''In a few sentences'', ''describe the reason for the purchase'']
                            ''Description'' v c True d)))]"

text \<open>The \<open>forEach\<close> over the table, with its \<open>try\<close>/\<open>catch\<close>: a result is pushed, a null
  result and a caught exception are only logged.\<close>

fun run_fields ::
  "(regex \<times> string \<times> handler) list \<Rightarrow> FillResult list \<Rightarrow> document \<Rightarrow> FillResult list \<times> document" where
  "run_fields [] acc doc = (acc, doc)"
| "run_fields ((labelPattern, name, h) # rest) acc doc =
     (case h doc of
        Inl (error, doc') \<Rightarrow> run_fields rest acc doc'
      | Inr (Some result, doc') \<Rightarrow> run_fields rest (acc @ [result]) doc'
      | Inr (None, doc') \<Rightarrow> run_fields rest acc doc')"

text \<open>\<open>fillExpenseForm\<close> on the form fields. Its branch for a supplied file only starts a
  timer for \<open>uploadPDFFile\<close> and is part of the attachment agent below.\<close>

definition fillExpenseForm ::
  "date_parser \<Rightarrow> ParsedExpenseData \<Rightarrow> document \<Rightarrow> FillSummary \<times> document" where
  "fillExpenseForm parse data doc =
     (case run_fields (fieldMappings parse data) [] doc of
        (rs, doc') \<Rightarrow>
          (\<lparr>results = rs,
            totalFields = length (fieldMappings parse data),
            filledFields = length (filter filled rs),
            lowConfidenceFields = length (filter needsReview rs)\<rparr>, doc'))"

section \<open>Page lifecycle watcher\<close>







section \<open>File attachment agent\<close>

text \<open>
  The upload part of the page, as \<open>checkAndUploadPendingFile\<close> and \<open>uploadPDFFile\<close> see
  it: whether \<open>.form-group.fileUploadQuestion\<close> and the upload button exist, whether the
  container is visible, whether the button has been intercepted, whether an \<open>AnswerId\<close> is
  found, whether a file input is found, whether assigning the file to it throws, and whether,
  two seconds later, a hidden file-name field of the host holds a value.
\<close>

record pdf_data =
  pdf_name :: string
  pdf_type :: string
  pdf_bytes :: "nat list"

record agent_state =
  pendingPDFFileData :: "pdf_data option"
  question_present :: bool
  button_present :: bool
  question_visible :: bool
  button_intercepted :: bool
  answer_id_present :: bool
  file_input_present :: bool
  assign_throws :: bool
  host_processes_file :: bool
  file_name_label :: "string option"
  upload_message_shown :: bool
  button_locked :: bool

definition showManualUploadMessage :: "agent_state \<Rightarrow> agent_state" where
  "showManualUploadMessage s = (if upload_message_shown s then s else s\<lparr>upload_message_shown := True\<rparr>)"

definition intercept_button :: "agent_state \<Rightarrow> agent_state" where
  "intercept_button s =
     (if button_present s \<and> \<not> button_intercepted s then s\<lparr>button_intercepted := True\<rparr> else s)"

text \<open>\<open>uploadPDFFile\<close> up to its return; the flag tells whether it started the timer that
  inspects the host's fields.\<close>

definition uploadPDFFile :: "pdf_data \<Rightarrow> agent_state \<Rightarrow> agent_state \<times> bool" where
  "uploadPDFFile file s =
     (if \<not> question_present s then (s, False)
      else
        let s1 = intercept_button s in
        if \<not> answer_id_present s1 then (s1, False)
        else if file_input_present s1 then
          (if assign_throws s1 then (showManualUploadMessage s1, False)
           else (s1\<lparr>file_name_label := Some (pdf_name file)\<rparr>, True))
        else (showManualUploadMessage s1, False))"

text \<open>The callback of that timer.\<close>

definition uploadProcessedCheck :: "agent_state \<Rightarrow> agent_state" where
  "uploadProcessedCheck s =
     (if host_processes_file s
      then s\<lparr>pendingPDFFileData := None, button_locked := button_present s\<rparr>
      else showManualUploadMessage s)"

text \<open>One attachment attempt from its start to the end of its timer.\<close>

definition upload_attempt :: "pdf_data \<Rightarrow> agent_state \<Rightarrow> agent_state" where
  "upload_attempt file s =
     (case uploadPDFFile file s of
        (s1, timer) \<Rightarrow> if timer then uploadProcessedCheck s1 else s1)"

definition checkAndUploadPendingFile :: "agent_state \<Rightarrow> bool \<times> agent_state" where
  "checkAndUploadPendingFile s =
     (case pendingPDFFileData s of
        None \<Rightarrow> (False, s)
      | Some fileData \<Rightarrow>
          if \<not> question_present s \<or> \<not> button_present s then (False, s)
          else if \<not> question_visible s then (False, s)
          else
            let s1 = intercept_button s;
                s2 = s1\<lparr>pendingPDFFileData := None\<rparr>
            in (True, upload_attempt fileData s2))"

text \<open>The file part of the \<open>fillForm\<close> message: the listener stores the file, and
  \<open>fillExpenseForm\<close> starts an attempt at once when the upload container is on the page.\<close>

definition receive_file :: "pdf_data \<Rightarrow> agent_state \<Rightarrow> agent_state" where
  "receive_file file s =
     (let s1 = s\<lparr>pendingPDFFileData := Some file\<rparr>
      in if question_present s1 then upload_attempt file s1 else s1)"

section \<open>Example documents\<close>

text \<open>Form groups and documents for the concrete runs below: a group with an empty text
  input, a group with a select on its \<open>-1\<close> option, a group of unchecked radios.\<close>

definition text_group :: "string \<Rightarrow> form_group" where
  "text_group l =
     \<lparr>label_set = Some l, text_field = Some \<lparr>input_value = [], data_autofilled = False\<rparr>,
      select_field = None, radios = [], outline_style = None, low_warning = None,
      unknown_warning = None\<rparr>"

definition select_group :: "string \<Rightarrow> select_option list \<Rightarrow> form_group" where
  "select_group l opts =
     \<lparr>label_set = Some l, text_field = None,
      select_field = Some \<lparr>select_options = opts, select_value = ''-1''\<rparr>, radios = [],
      outline_style = None, low_warning = None, unknown_warning = None\<rparr>"

definition radio_group :: "string \<Rightarrow> string \<Rightarrow> string list \<Rightarrow> form_group" where
  "radio_group l rname labels =
     \<lparr>label_set = Some l, text_field = None, select_field = None,
      radios = map (\<lambda>t. \<lparr>radio_name = rname, radio_label = t, radio_checked = False\<rparr>) labels,
      outline_style = None, low_warning = None, unknown_warning = None\<rparr>"

definition payment_doc :: document where
  "payment_doc =
     [radio_group ''Payment Method'' ''payment''
        [''Club Spending Card (with additional funding)'',
         ''(without additional funding)'',
         ''Out of pocket'']]"

definition march_parser :: date_parser where
  "march_parser s = (if s = ''2024-03-05'' then Some \<lparr>full_year = 2024, month0 = 2, day_of_month = 5\<rparr> else None)"

text \<open>\<open>new Date('0099-12-25')\<close> as a browser in the time zone UTC reads it: the year 99.\<close>

definition first_century_parser :: date_parser where
  "first_century_parser s =
     (if s = ''0099-12-25'' then Some \<lparr>full_year = 99, month0 = 11, day_of_month = 25\<rparr>
      else None)"

definition date_doc :: document where
  "date_doc = [text_group ''Date of Expense'']"

definition date_record :: "ParsedExpenseData" where
  "date_record =
     \<lparr>purchaser_name = None, netid = None, club_name = None, payment_method = None,
      vendor_name = None,
      date_of_expense = Some \<lparr>pf_value = ''2024-03-05'', pf_confidence = 0.9\<rparr>,
      total_amount = None, purchase_type = None, event_link = None, description = None\<rparr>"

definition receipt_pdf :: pdf_data where
  "receipt_pdf = \<lparr>pdf_name = ''receipt.pdf'', pdf_type = ''application/pdf'', pdf_bytes = [37, 80, 68, 70]\<rparr>"

text \<open>An upload page that shows its container and button but has no file input, with a file pending.\<close>

definition modal_upload_page :: agent_state where
  "modal_upload_page =
     \<lparr>pendingPDFFileData = Some receipt_pdf, question_present = True, button_present = True,
      question_visible = True, button_intercepted = False, answer_id_present = True,
      file_input_present = False, assign_throws = False, host_processes_file = False,
      file_name_label = None, upload_message_shown = False, button_locked = False\<rparr>"

text \<open>The same with nothing pending yet, for the fill command that brings the file.\<close>

definition idle_upload_page :: agent_state where
  "idle_upload_page = modal_upload_page\<lparr>pendingPDFFileData := None\<rparr>"

text \<open>When the delayed check of an attempt judges it successful: the attempt reached the file
  input, assigning the file did not throw, and the host then filled its file-name field.\<close>

definition upload_succeeds :: "agent_state \<Rightarrow> bool" where
  "upload_succeeds s =
     (question_present s \<and> answer_id_present s \<and> file_input_present s \<and> \<not> assign_throws s
      \<and> host_processes_file s)"



text \<open>A value the writers can use whatever its confidence: not empty, not blank, and not one
  of the unknown markers.\<close>

definition usable_value :: "string \<Rightarrow> bool" where
  "usable_value v = (v \<noteq> [] \<and> trim v \<noteq> [] \<and> \<not> is_unknown_marker (trim (toLowerCase v)))"


definition club_options :: "select_option list" where
  "club_options =
     [\<lparr>option_text = ''Select an organization'', option_value = ''-1''\<rparr>,
      \<lparr>option_text = ''Chess Club'', option_value = ''17''\<rparr>,
      \<lparr>option_text = ''Robotics Club'', option_value = ''23''\<rparr>]"

definition club_doc :: document where
  "club_doc = [select_group ''Club/Organization'' club_options]"




text \<open>The record properties the handlers of the field table read, with the field names of
  their table entries, in table order.\<close>

definition table_fields :: "ParsedExpenseData \<Rightarrow> (string \<times> parsed_field option) list" where
  "table_fields data =
     [(''Purchaser Name'', purchaser_name data), (''NetID'', netid data),
      (''Club/Organization'', club_name data), (''Payment Method'', payment_method data),
      (''Vendor Name'', vendor_name data), (''Date of Expense'', date_of_expense data),
      (''Expense Amount'', total_amount data), (''Purchase Type'', purchase_type data),
      (''Event Link'', event_link data), (''Description'', description data)]"

text \<open>A record whose payment method names a member of \<open>Object.prototype\<close>; the payment
  method is its only property.\<close>

definition constructor_record :: ParsedExpenseData where
  "constructor_record =
     \<lparr>purchaser_name = None, netid = None, club_name = None,
      payment_method = Some \<lparr>pf_value = ''constructor'', pf_confidence = 0.9\<rparr>,
      vendor_name = None, date_of_expense = None, total_amount = None, purchase_type = None,
      event_link = None, description = None\<rparr>"

text \<open>A record without the purchaser's name; every other property is there.\<close>

definition nameless_record :: ParsedExpenseData where
  "nameless_record =
     \<lparr>purchaser_name = None,
      netid = Some \<lparr>pf_value = ''ab1234'', pf_confidence = 1\<rparr>,
      club_name = Some \<lparr>pf_value = ''Chess Club'', pf_confidence = 0.9\<rparr>,
      payment_method = Some \<lparr>pf_value = ''out_of_pocket'', pf_confidence = 0.9\<rparr>,
      vendor_name = Some \<lparr>pf_value = ''Acme'', pf_confidence = 0.95\<rparr>,
      date_of_expense = Some \<lparr>pf_value = ''2024-03-05'', pf_confidence = 0.9\<rparr>,
      total_amount = Some \<lparr>pf_value = ''42.5'', pf_confidence = 0.95\<rparr>,
      purchase_type = Some \<lparr>pf_value = ''food'', pf_confidence = 0.9\<rparr>,
      event_link = Some \<lparr>pf_value = [], pf_confidence = 0\<rparr>,
      description = Some \<lparr>pf_value = ''Lunch for club meeting'', pf_confidence = 0.7\<rparr>\<rparr>"

text \<open>The expense form with its ten fields, all empty.\<close>

definition empty_form :: document where
  "empty_form =
     [text_group ''Purchaser Name'',
      text_group ''Purchaser's NetID'',
      select_group ''Club/Organization'' club_options,
      radio_group ''Payment Method'' ''payment''
        [''Club Spending Card (with additional funding)'',
         ''Club Spending Card (without additional funding)'',
         ''Out of pocket''],
      text_group ''Vendor Name'',
      text_group ''Date of Expense'',
      text_group ''Expense Amount'',
      radio_group ''Purchase Type'' ''purchase'' [''Food'', ''Apparel'', ''Subscription'', ''Other''],
      text_group ''Include the link to the applicable NYU Engage event'',
      text_group ''In a few sentences, please describe the reason for the purchase'']"

text \<open>The record of the scenario: six properties, the amount \<open>42.50\<close> as \<open>String\<close>
  renders it.\<close>

definition scenario_record :: ParsedExpenseData where
  "scenario_record =
     \<lparr>purchaser_name = None, netid = None, club_name = None,
      payment_method = Some \<lparr>pf_value = ''out_of_pocket'', pf_confidence = 0.9\<rparr>,
      vendor_name = Some \<lparr>pf_value = ''Acme'', pf_confidence = 0.95\<rparr>,
      date_of_expense = None,
      total_amount = Some \<lparr>pf_value = ''42.5'', pf_confidence = 0.95\<rparr>,
      purchase_type = Some \<lparr>pf_value = ''food'', pf_confidence = 0.9\<rparr>,
      event_link = Some \<lparr>pf_value = [], pf_confidence = 0\<rparr>,
      description = Some \<lparr>pf_value = ''Lunch for club meeting'', pf_confidence = 0.7\<rparr>\<rparr>"

definition no_date :: date_parser where
  "no_date s = None"

section \<open>The writes of a fill pass\<close>

text \<open>
  The notions of this section are not functions of the content script. They describe what its
  writers read and what they assign, for the proof that a second fill pass repeats the first.
\<close>

text \<open>
  What a fill pass never changes in a form group: its label, whether it has a text input and
  whether that input holds a value of someone else, the options of its select, and the
  names and labels of its radios.
\<close>

definition group_shape ::
  "form_group \<Rightarrow> string option \<times> bool option \<times> select_option list option \<times> (string \<times> string) list" where
  "group_shape g =
     (label_set g, map_option holds_foreign_value (text_field g),
      map_option select_options (select_field g),
      map (\<lambda>r. (radio_name r, radio_label r)) (radios g))"

definition doc_shape ::
  "document \<Rightarrow> (string option \<times> bool option \<times> select_option list option \<times> (string \<times> string) list) list" where
  "doc_shape d = map group_shape d"

text \<open>
  A write to a form group, as the list of what it assigns: a text value (with the provenance
  marker), a select value, the checked state of some radios, an outline and the two warnings;
  \<open>None\<close> leaves the part as it is. A write to the document gives one such write per form
  group.
\<close>

record group_write =
  w_text :: "string option"
  w_select :: "string option"
  w_radio :: "nat \<Rightarrow> bool option"
  w_outline :: "outline option"
  w_low :: "tooltip option"
  w_unknown :: "tooltip option"

definition no_write :: group_write where
  "no_write = \<lparr>w_text = None, w_select = None, w_radio = (\<lambda>m. None), w_outline = None,
                w_low = None, w_unknown = None\<rparr>"

definition later :: "'a option \<Rightarrow> 'a option \<Rightarrow> 'a option" where
  "later q p = (case q of None \<Rightarrow> p | Some x \<Rightarrow> Some x)"

definition then_write :: "group_write \<Rightarrow> group_write \<Rightarrow> group_write" where
  "then_write q p =
     \<lparr>w_text = later (w_text q) (w_text p), w_select = later (w_select q) (w_select p),
      w_radio = (\<lambda>m. later (w_radio q m) (w_radio p m)),
      w_outline = later (w_outline q) (w_outline p), w_low = later (w_low q) (w_low p),
      w_unknown = later (w_unknown q) (w_unknown p)\<rparr>"

definition apply_radio :: "bool option \<Rightarrow> radio_input \<Rightarrow> radio_input" where
  "apply_radio b r = (case b of None \<Rightarrow> r | Some c \<Rightarrow> r\<lparr>radio_checked := c\<rparr>)"

definition apply_group :: "group_write \<Rightarrow> form_group \<Rightarrow> form_group" where
  "apply_group p g =
     g\<lparr>text_field :=
         (case w_text p of
            None \<Rightarrow> text_field g
          | Some v \<Rightarrow> map_option (\<lambda>inp. \<lparr>input_value = v, data_autofilled = True\<rparr>) (text_field g)),
       select_field :=
         (case w_select p of
            None \<Rightarrow> select_field g
          | Some x \<Rightarrow> map_option (\<lambda>sel. sel\<lparr>select_value := x\<rparr>) (select_field g)),
       radios := map (\<lambda>m. apply_radio (w_radio p m) (radios g ! m)) [0..<length (radios g)],
       outline_style := later (w_outline p) (outline_style g),
       low_warning := later (w_low p) (low_warning g),
       unknown_warning := later (w_unknown p) (unknown_warning g)\<rparr>"

definition apply_doc :: "(nat \<Rightarrow> group_write) \<Rightarrow> document \<Rightarrow> document" where
  "apply_doc P d = map (\<lambda>j. apply_group (P j) (d ! j)) [0..<length d]"

definition at_group :: "nat \<Rightarrow> group_write \<Rightarrow> nat \<Rightarrow> group_write" where
  "at_group i p j = (if j = i then p else no_write)"

text \<open>A write to the document is safe when it assigns a text value only where the input
  holds no value of someone else.\<close>

definition safe_write :: "(nat \<Rightarrow> group_write) \<Rightarrow> document \<Rightarrow> bool" where
  "safe_write P d =
     (\<forall>j < length d. w_text (P j) = None
        \<or> (\<forall>inp. text_field (d ! j) = Some inp \<longrightarrow> \<not> holds_foreign_value inp))"

text \<open>The write \<open>radio.checked = true\<close> makes on the document \<open>d\<close>.\<close>

definition check_write :: "document \<Rightarrow> nat \<Rightarrow> nat \<Rightarrow> nat \<Rightarrow> group_write" where
  "check_write d i k j =
     no_write\<lparr>w_radio := (\<lambda>m.
        if j = i \<and> m = k then Some True
        else if radio_name (radios (d ! i) ! k) \<noteq> []
                \<and> radio_name (radios (d ! j) ! m) = radio_name (radios (d ! i) ! k)
        then Some False else None)\<rparr>"

text \<open>The writes of the annotator and of the text and single-select writers to their form
  group.\<close>

definition low_write :: "tooltip \<Rightarrow> group_write" where
  "low_write t = no_write\<lparr>w_outline := Some LowConfidenceOutline, w_low := Some t\<rparr>"

definition unknown_write :: "tooltip \<Rightarrow> group_write" where
  "unknown_write t = no_write\<lparr>w_outline := Some UnknownOutline, w_unknown := Some t\<rparr>"

definition text_write :: "string \<Rightarrow> bool \<Rightarrow> tooltip \<Rightarrow> group_write" where
  "text_write v review t =
     (if review then then_write (low_write t) (no_write\<lparr>w_text := Some v\<rparr>)
      else no_write\<lparr>w_text := Some v\<rparr>)"

definition select_write :: "string \<Rightarrow> bool \<Rightarrow> tooltip \<Rightarrow> group_write" where
  "select_write x review t =
     (if review then then_write (low_write t) (no_write\<lparr>w_select := Some x\<rparr>)
      else no_write\<lparr>w_select := Some x\<rparr>)"

text \<open>A handler is regular when, on two documents of the same shape, it throws the same
  exception or returns the same result, and makes the same safe write.\<close>

definition regular_handler :: "handler \<Rightarrow> bool" where
  "regular_handler h =
     (\<forall>d d'. doc_shape d = doc_shape d' \<longrightarrow>
        (\<exists>P. safe_write P d
           \<and> ((\<exists>e. h d = Inl (e, apply_doc P d) \<and> h d' = Inl (e, apply_doc P d'))
              \<or> (\<exists>r. h d = Inr (r, apply_doc P d) \<and> h d' = Inr (r, apply_doc P d')))))"

section \<open>Basic facts\<close>

lemmas string_defs = regex_test_def toLowerCase_def is_line_terminator_def normalizeText_def
  trim_def collapse_spaces_def is_space_def label_matches_def

lemma find_group_bound: "find_group pat doc k = Some i \<Longrightarrow> k \<le> i \<and> i < k + length doc"
  by (induction doc arbitrary: k) (fastforce split: option.splits if_splits)+

lemma findFieldByLabel_bound: "findFieldByLabel pat doc = Some i \<Longrightarrow> i < length doc"
  using find_group_bound [of pat doc 0 i] by (simp add: findFieldByLabel_def)

lemma with_funding_matches:
  "regex_test [''club spending card'', ''with'', ''additional funding'']
     ''Club Spending Card (with additional funding)''"
  by (simp add: string_defs)

lemma not_unknown_with_extra:
  "UNKNOWN_THRESHOLD \<le> conf \<Longrightarrow> \<not> isUnknownValue ''club_card_with_extra'' conf"
  by (simp add: isUnknownValue_def is_unknown_marker_def string_defs)

lemma set_checked_nth:
  assumes "i < length doc" "k < length (radios (doc ! i))"
  shows "radios (set_checked i k doc ! i) =
     (radios (uncheck_group (radio_name (radios (doc ! i) ! k)) (doc ! i)))
       [k := (radios (uncheck_group (radio_name (radios (doc ! i) ! k)) (doc ! i)) ! k)\<lparr>radio_checked := True\<rparr>]"
  using assms by (simp add: set_checked_def Let_def)


lemma radio_fill_result:
  assumes "findFieldByLabel labelPattern doc = Some i"
    and "radios (doc ! i) \<noteq> []"
    and "\<not> isUnknownValue v conf"
    and "radio_patterns field v = Some patterns"
    and "find_radio patterns (radios (doc ! i)) 0 = Some k"
  shows "fillRadioGroupByPattern labelPattern field v conf doc =
     Inr (\<lparr>fieldName = field_name field, filled = True, confidence = conf,
            fill_value = Some (trim (radio_label (radios (doc ! i) ! k))),
            needsReview = (conf < CONFIDENCE_THRESHOLD)\<rparr>,
          if conf < CONFIDENCE_THRESHOLD
          then (set_checked i k doc)[i := markLowConfidenceField (set_checked i k doc ! i) (LowConfidence conf)]
          else set_checked i k doc)"
  using assms by (simp add: fillRadioGroupByPattern_def Let_def)

lemma radios_markLow [simp]: "radios (markLowConfidenceField g t) = radios g"
  by (simp add: markLowConfidenceField_def)

text \<open>
  Claim C9. The choice-group writer, given the payment method \<open>club_card_with_extra\<close> and
  a radio group whose choice labels are, in order, \<open>Club Spending Card (with additional
  funding)\<close>, \<open>(without additional funding)\<close> and \<open>Out of pocket\<close>, selects the first
  choice: the result is filled with that label, the first radio is checked afterwards, and
  no other radio of the group becomes checked. The value has to pass the unknown-value
  check first, so the confidence is at least \<open>UNKNOWN_THRESHOLD\<close>.
\<close>

theorem C9_choice_group_scenario:
  assumes found: "findFieldByLabel labelPattern doc = Some i"
    and labels: "map radio_label (radios (doc ! i)) =
       [''Club Spending Card (with additional funding)'', ''(without additional funding)'',
        ''Out of pocket'']"
    and conf: "UNKNOWN_THRESHOLD \<le> conf"
  shows "\<exists>r doc'. fillRadioGroupByPattern labelPattern PaymentMethod
            ''club_card_with_extra'' conf doc = Inr (r, doc')
       \<and> filled r
       \<and> fill_value r = Some ''Club Spending Card (with additional funding)''
       \<and> radio_checked (radios (doc' ! i) ! 0)
       \<and> (\<forall>k. 0 < k \<and> k < 3 \<and> radio_checked (radios (doc' ! i) ! k)
            \<longrightarrow> radio_checked (radios (doc ! i) ! k))"
proof -
  define v where "v = ''club_card_with_extra''"
  define l1 where "l1 = ''Club Spending Card (with additional funding)''"
  have i: "i < length doc" using found by (rule findFieldByLabel_bound)
  from labels obtain r1 rs where rs: "radios (doc ! i) = r1 # rs"
    and l1: "radio_label r1 = l1"
    by (auto simp: map_eq_Cons_conv l1_def)
  define patterns where "patterns =
      [[''club spending card'', ''with'', ''additional funding''],
       [''club spending card'', ''with'', ''extra'']]"
  have pats: "radio_patterns PaymentMethod v = Some patterns"
    by (simp add: radio_patterns_def valueMappings_def own_patterns_def v_def patterns_def)
  have fr: "find_radio patterns (radios (doc ! i)) 0 = Some 0"
    unfolding patterns_def rs using with_funding_matches by (simp add: l1 l1_def)
  have tr: "trim l1 = l1"
    by (simp add: trim_def is_space_def l1_def)
  have ne: "radios (doc ! i) \<noteq> []" by (simp add: rs)
  have nu: "\<not> isUnknownValue v conf" unfolding v_def using conf by (rule not_unknown_with_extra)
  define r where "r = \<lparr>fieldName = field_name PaymentMethod, filled = True, confidence = conf,
            fill_value = Some (trim (radio_label (radios (doc ! i) ! 0))),
            needsReview = (conf < CONFIDENCE_THRESHOLD)\<rparr>"
  define doc' where "doc' = (if conf < CONFIDENCE_THRESHOLD
          then (set_checked i 0 doc)[i := markLowConfidenceField (set_checked i 0 doc ! i) (LowConfidence conf)]
          else set_checked i 0 doc)"
  have res: "fillRadioGroupByPattern labelPattern PaymentMethod v conf doc = Inr (r, doc')"
    unfolding r_def doc'_def by (rule radio_fill_result [OF found ne nu pats fr])
  have k: "0 < length (radios (doc ! i))" by (simp add: rs)
  note sc = set_checked_nth [OF i k]
  have chk: "radios (set_checked i 0 doc ! i) =
     (r1\<lparr>radio_checked := True\<rparr>) # map (\<lambda>r. if radio_name r1 \<noteq> [] \<and> radio_name r = radio_name r1
                             then r\<lparr>radio_checked := False\<rparr> else r) rs"
    unfolding sc by (simp add: rs uncheck_group_def)
  have len: "length (set_checked i 0 doc) = length doc"
    by (simp add: set_checked_def Let_def)
  have final: "radios (doc' ! i)
     = (r1\<lparr>radio_checked := True\<rparr>) # map (\<lambda>r. if radio_name r1 \<noteq> [] \<and> radio_name r = radio_name r1
                             then r\<lparr>radio_checked := False\<rparr> else r) rs"
    unfolding doc'_def using i by (simp add: chk len)
  have a: "filled r"
    unfolding r_def by simp
  have b: "fill_value r = Some l1"
    unfolding r_def by (simp add: rs l1 tr)
  have c: "radio_checked (radios (doc' ! i) ! 0)"
    unfolding final by simp
  have "length (map radio_label (radios (doc ! i))) = 3" unfolding labels by simp
  then have lrs: "length rs = 2" by (simp add: rs)
  have d: "\<forall>k. 0 < k \<and> k < 3 \<and> radio_checked (radios (doc' ! i) ! k)
            \<longrightarrow> radio_checked (radios (doc ! i) ! k)"
  proof (intro allI impI)
    fix k assume h: "0 < k \<and> k < 3 \<and> radio_checked (radios (doc' ! i) ! k)"
    then obtain j where kj: "k = Suc j" and j: "j < length rs"
      using lrs by (cases k) auto
    from h show "radio_checked (radios (doc ! i) ! k)"
      unfolding final rs kj using j by (simp split: if_splits)
  qed
  show ?thesis using res a b c d unfolding v_def l1_def by blast
qed

theorem C9_choice_group_scenario_witness:
  "(case fillRadioGroupByPattern [''Payment Method''] PaymentMethod
            ''club_card_with_extra'' 0.9 payment_doc of
      Inl error \<Rightarrow> False
    | Inr (r, doc') \<Rightarrow> filled r \<and> radio_checked (radios (doc' ! 0) ! 0))"
proof -
  have f: "findFieldByLabel [''Payment Method''] payment_doc = Some 0"
    by (simp add: findFieldByLabel_def payment_doc_def radio_group_def string_defs)
  have l: "map radio_label (radios (payment_doc ! 0)) =
       [''Club Spending Card (with additional funding)'', ''(without additional funding)'',
        ''Out of pocket'']"
    by (simp add: payment_doc_def radio_group_def)
  have c: "UNKNOWN_THRESHOLD \<le> (0.9::real)" by (simp add: UNKNOWN_THRESHOLD_def)
  from C9_choice_group_scenario [OF f l c] show ?thesis by auto
qed

lemma digit_char_is_digit: "n < 10 \<Longrightarrow> is_digit (digit_char n)"
proof -
  assume n: "n < 10"
  have "\<forall>c \<in> set ''0123456789''. is_digit c" by (simp add: is_digit_def)
  moreover have "''0123456789'' ! n \<in> set ''0123456789''" using n by (intro nth_mem) simp
  ultimately show ?thesis unfolding digit_char_def by blast
qed

lemma show_nat_1: "n < 10 \<Longrightarrow> show_nat n = [digit_char n]"
  by (simp add: show_nat.simps)

lemma show_nat_2: "10 \<le> n \<Longrightarrow> n < 100 \<Longrightarrow> show_nat n = [digit_char (n div 10), digit_char (n mod 10)]"
  by (subst show_nat.simps) (simp add: show_nat_1)

lemma show_nat_3: "100 \<le> n \<Longrightarrow> n < 1000 \<Longrightarrow>
    show_nat n = [digit_char (n div 100), digit_char (n div 10 mod 10), digit_char (n mod 10)]"
  by (subst show_nat.simps) (simp add: show_nat_2 div_mult2_eq [symmetric] less_mult_imp_div_less)

lemma show_nat_4: "1000 \<le> n \<Longrightarrow> n < 10000 \<Longrightarrow>
    show_nat n = [digit_char (n div 1000), digit_char (n div 100 mod 10),
                  digit_char (n div 10 mod 10), digit_char (n mod 10)]"
  by (subst show_nat.simps) (simp add: show_nat_3 div_mult2_eq [symmetric] less_mult_imp_div_less)

lemma pad2_two_digits:
  "n < 100 \<Longrightarrow> \<exists>a b. pad2 (show_nat n) = [a, b] \<and> is_digit a \<and> is_digit b"
proof (cases "n < 10")
  case True
  then show ?thesis
    using digit_char_is_digit [of n] digit_char_is_digit [of 0]
    by (simp add: show_nat_1 pad2_def digit_char_def)
next
  case False
  assume "n < 100"
  with False show ?thesis
    using digit_char_is_digit [of "n div 10"] digit_char_is_digit [of "n mod 10"]
    by (simp add: show_nat_2 pad2_def)
qed

lemma year_four_digits:
  assumes "1000 \<le> y" "y \<le> 9999"
  shows "\<exists>a b c d. show_int y = [a, b, c, d] \<and> is_digit a \<and> is_digit b \<and> is_digit c \<and> is_digit d"
proof -
  have n: "1000 \<le> nat y" "nat y < 10000" using assms by auto
  have "nat y div 1000 < 10" using n by simp
  then show ?thesis
    using assms n digit_char_is_digit [of "nat y div 1000"]
      digit_char_is_digit [of "nat y div 100 mod 10"]
      digit_char_is_digit [of "nat y div 10 mod 10"] digit_char_is_digit [of "nat y mod 10"]
    by (simp add: show_int_def show_nat_4)
qed

lemma formatted_shape:
  assumes "month0 d < 12" "day_of_month d < 32" "1000 \<le> full_year d" "full_year d \<le> 9999"
  shows "is_mmddyyyy (pad2 (show_nat (month0 d + 1)) @ ''/'' @ pad2 (show_nat (day_of_month d))
                  @ ''/'' @ show_int (full_year d))"
proof -
  obtain m1 m2 where m: "pad2 (show_nat (month0 d + 1)) = [m1, m2]" "is_digit m1" "is_digit m2"
    using pad2_two_digits [of "month0 d + 1"] assms(1) by auto
  obtain d1 d2 where dd: "pad2 (show_nat (day_of_month d)) = [d1, d2]" "is_digit d1" "is_digit d2"
    using pad2_two_digits [of "day_of_month d"] assms(2) by auto
  obtain a b c e where y: "show_int (full_year d) = [a, b, c, e]"
      "is_digit a" "is_digit b" "is_digit c" "is_digit e"
    using year_four_digits [OF assms(3,4)] by auto
  show ?thesis unfolding m dd y by (simp add: is_mmddyyyy_def y(2-) m(2-) dd(2-))
qed

lemma text_filled_D:
  assumes "fillTextFieldByPattern pat name v conf always doc = (r, doc')" and "filled r"
  shows "\<exists>i inp. findFieldByLabel pat doc = Some i \<and> text_field (doc ! i) = Some inp
           \<and> \<not> holds_foreign_value inp \<and> fill_value r = Some v
           \<and> needsReview r = (conf < CONFIDENCE_THRESHOLD)
           \<and> text_field (doc' ! i) = Some \<lparr>input_value = v, data_autofilled = True\<rparr>"
proof -
  from assms obtain i where i: "findFieldByLabel pat doc = Some i"
    by (cases "findFieldByLabel pat doc") (auto simp: fillTextFieldByPattern_def not_filled_def)
  then have len: "i < length doc" by (rule findFieldByLabel_bound)
  from assms i obtain inp where inp: "text_field (doc ! i) = Some inp"
    by (cases "text_field (doc ! i)") (auto simp: fillTextFieldByPattern_def not_filled_def)
  from assms show ?thesis
    using len
    by (auto simp: fillTextFieldByPattern_def i inp not_filled_def Let_def write_text_def
          markLowConfidenceField_def split: if_splits)
qed

lemma intercept_button_fields [simp]:
  "pendingPDFFileData (intercept_button s) = pendingPDFFileData s"
  "question_present (intercept_button s) = question_present s"
  "answer_id_present (intercept_button s) = answer_id_present s"
  "file_input_present (intercept_button s) = file_input_present s"
  "assign_throws (intercept_button s) = assign_throws s"
  "host_processes_file (intercept_button s) = host_processes_file s"
  "upload_message_shown (intercept_button s) = upload_message_shown s"
  by (simp_all add: intercept_button_def)

lemma showManual_fields [simp]:
  "pendingPDFFileData (showManualUploadMessage s) = pendingPDFFileData s"
  "upload_message_shown (showManualUploadMessage s)"
  by (simp_all add: showManualUploadMessage_def)

lemma upload_attempt_pending:
  "pendingPDFFileData (upload_attempt file s) =
     (if upload_succeeds s then None else pendingPDFFileData s)"
  by (simp add: upload_attempt_def uploadPDFFile_def uploadProcessedCheck_def upload_succeeds_def
        Let_def)

lemma upload_attempt_message:
  "question_present s \<Longrightarrow> answer_id_present s \<Longrightarrow> \<not> upload_succeeds s \<Longrightarrow>
     upload_message_shown (upload_attempt file s)"
  by (auto simp: upload_attempt_def uploadPDFFile_def uploadProcessedCheck_def upload_succeeds_def
        Let_def)

text \<open>
  Claim C6, as the code has it. The pending attachment is cleared in two places: by the
  delayed check of \<open>uploadPDFFile\<close> when the host is seen to have processed the file, and by
  \<open>checkAndUploadPendingFile\<close> as soon as it starts an attempt, before the outcome is known.
  So an attempt started by the watcher leaves nothing pending whatever its outcome, an attempt
  that does not start leaves the state as it is, and an attempt started at once by the fill
  command keeps the file pending unless the host processed it; there a fallback to the
  manual-upload message leaves the attachment pending.
\<close>

theorem C6_pending_attachment_lifecycle:
  "(fst (checkAndUploadPendingFile s) \<longrightarrow>
      pendingPDFFileData (snd (checkAndUploadPendingFile s)) = None)
   \<and> (\<not> fst (checkAndUploadPendingFile s) \<longrightarrow> snd (checkAndUploadPendingFile s) = s)
   \<and> pendingPDFFileData (upload_attempt file s) =
        (if upload_succeeds s then None else pendingPDFFileData s)
   \<and> (question_present s \<and> answer_id_present s \<and> \<not> upload_succeeds s \<longrightarrow>
        upload_message_shown (receive_file file s)
        \<and> pendingPDFFileData (receive_file file s) = Some file)"
proof -
  have a: "fst (checkAndUploadPendingFile s) \<longrightarrow>
      pendingPDFFileData (snd (checkAndUploadPendingFile s)) = None"
    by (simp add: checkAndUploadPendingFile_def upload_attempt_pending Let_def
          split: option.splits)
  have b: "\<not> fst (checkAndUploadPendingFile s) \<longrightarrow> snd (checkAndUploadPendingFile s) = s"
    by (simp add: checkAndUploadPendingFile_def Let_def split: option.splits)
  have c: "question_present s \<and> answer_id_present s \<and> \<not> upload_succeeds s \<longrightarrow>
        upload_message_shown (receive_file file s)
        \<and> pendingPDFFileData (receive_file file s) = Some file"
    by (simp add: receive_file_def Let_def upload_attempt_pending upload_attempt_message
          upload_succeeds_def)
  show ?thesis using a b c upload_attempt_pending by blast
qed

theorem C6_pending_attachment_lifecycle_witness:
  "fst (checkAndUploadPendingFile modal_upload_page)
   \<and> pendingPDFFileData (snd (checkAndUploadPendingFile modal_upload_page)) = None
   \<and> upload_message_shown (receive_file receipt_pdf idle_upload_page)
   \<and> pendingPDFFileData (receive_file receipt_pdf idle_upload_page) = Some receipt_pdf"
proof -
  have f: "fst (checkAndUploadPendingFile modal_upload_page)"
    by (simp add: checkAndUploadPendingFile_def modal_upload_page_def Let_def)
  have g: "question_present idle_upload_page \<and> answer_id_present idle_upload_page
      \<and> \<not> upload_succeeds idle_upload_page"
    by (simp add: idle_upload_page_def modal_upload_page_def upload_succeeds_def)
  show ?thesis
    using C6_pending_attachment_lifecycle [of modal_upload_page receipt_pdf]
      C6_pending_attachment_lifecycle [of idle_upload_page receipt_pdf] f g
    by blast
qed

text \<open>
  Claim C6 as stated fails on the watcher's path: on a visible upload page without a file
  input the agent falls back to the manual-upload message, and the pending attachment, set
  before, is gone afterwards.
\<close>

theorem C6_banner_after_cleared_counterexample:
  "upload_message_shown (snd (checkAndUploadPendingFile modal_upload_page))
   \<and> pendingPDFFileData modal_upload_page = Some receipt_pdf
   \<and> pendingPDFFileData (snd (checkAndUploadPendingFile modal_upload_page)) = None"
  by (simp add: checkAndUploadPendingFile_def modal_upload_page_def Let_def upload_attempt_def
        uploadPDFFile_def intercept_button_def showManualUploadMessage_def)






lemma isUnknownValue_iff:
  "isUnknownValue v conf = (\<not> usable_value v \<or> conf < UNKNOWN_THRESHOLD)"
  by (auto simp: isUnknownValue_def usable_value_def)

text \<open>The three writers on a located form group that holds their control.\<close>

lemma text_result:
  assumes "findFieldByLabel pat doc = Some i" and "text_field (doc ! i) = Some inp"
  shows "fillTextFieldByPattern pat name v conf always doc =
     (if (always \<and> usable_value v) \<or> \<not> isUnknownValue v conf
      then (if holds_foreign_value inp then (not_filled name False, doc)
            else (\<lparr>fieldName = name, filled = True, confidence = conf, fill_value = Some v,
                   needsReview = (conf < CONFIDENCE_THRESHOLD)\<rparr>,
                  doc[i := (if conf < CONFIDENCE_THRESHOLD
                            then markLowConfidenceField (write_text (doc ! i) v)
                                   (if always \<and> usable_value v
                                    then DescriptionLowConfidence conf else LowConfidence conf)
                            else write_text (doc ! i) v)]))
      else (not_filled name True, doc[i := markUnknownField (doc ! i) FillManually]))"
  using assms
  by (simp add: fillTextFieldByPattern_def Let_def usable_value_def isUnknownValue_iff)

lemma dropdown_result:
  assumes "findFieldByLabel pat doc = Some i" and "select_field (doc ! i) = Some sel"
  shows "fillDropdownByPattern pat name v conf doc =
     (if isUnknownValue v conf
      then (not_filled name True, doc[i := markUnknownField (doc ! i) SelectManually])
      else (case find (option_matches v) (select_options sel) of
              Some opt \<Rightarrow>
                if option_value opt \<noteq> ''-1''
                then (\<lparr>fieldName = name, filled = True, confidence = conf,
                        fill_value = Some (if option_text opt \<noteq> [] then option_text opt else v),
                        needsReview = (conf < CONFIDENCE_THRESHOLD)\<rparr>,
                      doc[i := (if conf < CONFIDENCE_THRESHOLD
                                then markLowConfidenceField
                                       ((doc ! i)\<lparr>select_field := Some (sel\<lparr>select_value := option_value opt\<rparr>)\<rparr>)
                                       (LowConfidence conf)
                                else (doc ! i)\<lparr>select_field := Some (sel\<lparr>select_value := option_value opt\<rparr>)\<rparr>)])
                else (not_filled name True, doc[i := markUnknownField (doc ! i) (NoMatchingOption v)])
            | None \<Rightarrow> (not_filled name True, doc[i := markUnknownField (doc ! i) (NoMatchingOption v)])))"
  using assms
  by (simp add: fillDropdownByPattern_def Let_def split: option.splits)

lemma radio_result:
  assumes "findFieldByLabel pat doc = Some i" and "radios (doc ! i) \<noteq> []"
  shows "fillRadioGroupByPattern pat field v conf doc =
     (if isUnknownValue v conf
      then Inr (not_filled (field_name field) True,
                doc[i := markUnknownField (doc ! i) SelectManually])
      else (case radio_patterns field v of
              None \<Rightarrow> Inl TypeError
            | Some patterns \<Rightarrow>
                (case find_radio patterns (radios (doc ! i)) 0 of
                   Some k \<Rightarrow>
                     Inr (\<lparr>fieldName = field_name field, filled = True, confidence = conf,
                            fill_value = Some (trim (radio_label (radios (doc ! i) ! k))),
                            needsReview = (conf < CONFIDENCE_THRESHOLD)\<rparr>,
                          if conf < CONFIDENCE_THRESHOLD
                          then (set_checked i k doc)
                                 [i := markLowConfidenceField (set_checked i k doc ! i)
                                         (LowConfidence conf)]
                          else set_checked i k doc)
                 | None \<Rightarrow> Inr (not_filled (field_name field) True,
                                 doc[i := markUnknownField (doc ! i) (NoMatchingOption v)]))))"
  using assms
  by (simp add: fillRadioGroupByPattern_def Let_def split: option.splits)



lemma length_set_checked [simp]: "length (set_checked i k doc) = length doc"
  by (simp add: set_checked_def Let_def)





lemma find_club: "findFieldByLabel [''Club/Organization''] club_doc = Some 0"
  by (simp add: findFieldByLabel_def club_doc_def select_group_def string_defs)

lemma usable_lunch: "usable_value ''Lunch for club meeting''"
  by (simp add: usable_value_def is_unknown_marker_def string_defs)

lemma usable_chess: "usable_value ''Chess Club''"
  by (simp add: usable_value_def is_unknown_marker_def string_defs)

lemma chess_option:
  "find (option_matches ''Chess Club'') club_options
     = Some \<lparr>option_text = ''Chess Club'', option_value = ''17''\<rparr>"
  by (simp add: club_options_def option_matches_def toLowerCase_def)






text \<open>
  Claim C8, as the code has it. With the form group located and its select found, a value
  that passes the unknown-value check (usable, confidence at least 0.5) is selected exactly
  when the first option that satisfies the two-way case-insensitive containment exists and
  its value is not \<open>-1\<close>; the select then holds that option's value. When such a value
  selects nothing, the result is unfilled and needs review, the group carries the "could
  not find matching option" annotation and the select is untouched, whatever the confidence
  above the threshold. A value that fails the unknown-value check selects nothing either,
  and the annotation is the "could not be determined" one.
\<close>

theorem C8_single_select_matching:
  assumes "findFieldByLabel pat doc = Some i" and "select_field (doc ! i) = Some sel"
  shows
    "(let r = fst (fillDropdownByPattern pat name v conf doc);
          doc' = snd (fillDropdownByPattern pat name v conf doc)
      in (\<not> isUnknownValue v conf \<longrightarrow>
            filled r = (\<exists>opt. find (option_matches v) (select_options sel) = Some opt
                             \<and> option_value opt \<noteq> ''-1''))
         \<and> (filled r \<longrightarrow>
              (\<exists>opt. find (option_matches v) (select_options sel) = Some opt
                 \<and> select_field (doc' ! i) = Some (sel\<lparr>select_value := option_value opt\<rparr>)))
         \<and> (\<not> isUnknownValue v conf \<and> \<not> filled r \<longrightarrow>
              needsReview r \<and> unknown_warning (doc' ! i) = Some (NoMatchingOption v)
              \<and> select_field (doc' ! i) = Some sel)
         \<and> (isUnknownValue v conf \<longrightarrow>
              \<not> filled r \<and> needsReview r \<and> unknown_warning (doc' ! i) = Some SelectManually
              \<and> select_field (doc' ! i) = Some sel))"
proof -
  have i: "i < length doc" using assms(1) by (rule findFieldByLabel_bound)
  show ?thesis
    unfolding Let_def dropdown_result [OF assms]
    using i assms(2)
    by (auto simp: not_filled_def markUnknownField_def markLowConfidenceField_def
          split: option.splits)
qed

theorem C8_single_select_matching_witness:
  "filled (fst (fillDropdownByPattern [''Club/Organization''] ''Club/Organization''
       ''Chess Club'' 0.9 club_doc))
   \<and> unknown_warning (snd (fillDropdownByPattern [''Club/Organization''] ''Club/Organization''
       ''Chess Club'' 0.3 club_doc) ! 0) = Some SelectManually"
proof -
  have s: "select_field (club_doc ! 0)
      = Some \<lparr>select_options = club_options, select_value = ''-1''\<rparr>"
    by (simp add: club_doc_def select_group_def)
  have n: "\<not> isUnknownValue ''Chess Club'' 0.9"
    using usable_chess by (simp add: isUnknownValue_iff UNKNOWN_THRESHOLD_def)
  have u: "isUnknownValue ''Chess Club'' 0.3"
    by (simp add: isUnknownValue_iff UNKNOWN_THRESHOLD_def)
  have e: "\<exists>opt. find (option_matches ''Chess Club'')
        (select_options \<lparr>select_options = club_options, select_value = ''-1''\<rparr>) = Some opt
      \<and> option_value opt \<noteq> ''-1''"
    using chess_option by simp
  have w1: "filled (fst (fillDropdownByPattern [''Club/Organization''] ''Club/Organization''
       ''Chess Club'' 0.9 club_doc))"
    using C8_single_select_matching [OF find_club s, where v = "''Chess Club''" and conf = "0.9"
        and name = "''Club/Organization''"] n e
    unfolding Let_def by blast
  have w2: "unknown_warning (snd (fillDropdownByPattern [''Club/Organization'']
       ''Club/Organization'' ''Chess Club'' 0.3 club_doc) ! 0) = Some SelectManually"
    using C8_single_select_matching [OF find_club s, where v = "''Chess Club''" and conf = "0.3"
        and name = "''Club/Organization''"] u
    unfolding Let_def by blast
  show ?thesis using w1 w2 by blast
qed

text \<open>
  Claim C8 as stated fails below the unknown threshold: the option \<open>Chess Club\<close> matches
  the value and is not the sentinel, yet with confidence 0.3 nothing is selected, and the
  annotation is not the "could not find matching option" one.
\<close>

theorem C8_low_confidence_counterexample:
  "find (option_matches ''Chess Club'') club_options
     = Some \<lparr>option_text = ''Chess Club'', option_value = ''17''\<rparr>
   \<and> \<not> filled (fst (fillDropdownByPattern [''Club/Organization''] ''Club/Organization''
       ''Chess Club'' 0.3 club_doc))
   \<and> unknown_warning (snd (fillDropdownByPattern [''Club/Organization''] ''Club/Organization''
       ''Chess Club'' 0.3 club_doc) ! 0) = Some SelectManually
   \<and> unknown_warning (snd (fillDropdownByPattern [''Club/Organization''] ''Club/Organization''
       ''Chess Club'' 0.3 club_doc) ! 0) \<noteq> Some (NoMatchingOption ''Chess Club'')"
proof -
  have s: "select_field (club_doc ! 0)
      = Some \<lparr>select_options = club_options, select_value = ''-1''\<rparr>"
    by (simp add: club_doc_def select_group_def)
  have u: "isUnknownValue ''Chess Club'' 0.3"
    by (simp add: isUnknownValue_iff UNKNOWN_THRESHOLD_def)
  have l: "length club_doc = 1" by (simp add: club_doc_def)
  show ?thesis
    unfolding dropdown_result [OF find_club s]
    using u l chess_option by (simp add: not_filled_def markUnknownField_def)
qed

lemma map_update_same: "i < length doc \<Longrightarrow> f g = f (doc ! i) \<Longrightarrow> map f (doc[i := g]) = map f doc"
  by (simp add: map_update list_update_same_conv)

lemma find_radio_bound:
  "find_radio patterns rs n = Some k \<Longrightarrow> n \<le> k \<and> k < n + length rs"
  by (induction rs arbitrary: n) (fastforce split: if_splits)+









lemma text_fieldName [simp]:
  "fieldName (fst (fillTextFieldByPattern pat name v conf always doc)) = name"
  by (simp add: fillTextFieldByPattern_def not_filled_def Let_def split: option.splits)

lemma dropdown_fieldName [simp]:
  "fieldName (fst (fillDropdownByPattern pat name v conf doc)) = name"
  by (simp add: fillDropdownByPattern_def not_filled_def Let_def split: option.splits)

lemma fillExpenseForm_results:
  "results (fst (fillExpenseForm parse data doc)) = fst (run_fields (fieldMappings parse data) [] doc)"
  by (cases "run_fields (fieldMappings parse data) [] doc") (simp add: fillExpenseForm_def)

lemma fillExpenseForm_document:
  "snd (fillExpenseForm parse data doc) = snd (run_fields (fieldMappings parse data) [] doc)"
  by (cases "run_fields (fieldMappings parse data) [] doc") (simp add: fillExpenseForm_def)

lemma fillExpenseForm_total: "totalFields (fst (fillExpenseForm parse data doc)) = 10"
  by (cases "run_fields (fieldMappings parse data) [] doc")
     (simp add: fillExpenseForm_def fieldMappings_def)

lemma run_fields_throwing:
  assumes "\<And>d. h d = Inl (e, d)"
  shows "run_fields (before @ (labelPattern, name, h) # rest) acc doc
     = run_fields (before @ rest) acc doc"
proof (induction before arbitrary: acc doc)
  case Nil
  then show ?case by (simp add: assms)
next
  case (Cons b before)
  obtain p n g where b: "b = (p, n, g)" by (cases b) auto
  show ?case
    by (cases "g doc") (auto simp: b Cons.IH split: option.splits)
qed


lemma radio_returns:
  "radio_patterns field v \<noteq> None \<Longrightarrow>
     \<exists>r d'. fillRadioGroupByPattern pat field v conf doc = Inr (r, d')
            \<and> fieldName r = field_name field"
  by (auto simp: fillRadioGroupByPattern_def not_filled_def Let_def split: option.splits)

text \<open>The loop over a table whose handlers read a record property and call a writer.\<close>

lemma run_fields_call_writer_names:
  assumes "\<forall>(p, n, f, w) \<in> set specs. \<forall>pf d. f = Some pf \<longrightarrow>
      (\<exists>r d'. w (pf_value pf) (pf_confidence pf) d = Inr (r, d') \<and> fieldName r = n)"
  shows "map fieldName (fst (run_fields (map (\<lambda>(p, n, f, w). (p, n, call_writer f w)) specs) acc doc))
     = map fieldName acc @ map fst (filter (\<lambda>(n, f). f \<noteq> None) (map (\<lambda>(p, n, f, w). (n, f)) specs))"
  using assms
proof (induction specs arbitrary: acc doc)
  case Nil
  then show ?case by simp
next
  case (Cons s specs)
  obtain p n f w where s: "s = (p, n, f, w)" by (cases s) auto
  from Cons.prems have rest: "\<forall>(p, n, f, w) \<in> set specs. \<forall>pf d. f = Some pf \<longrightarrow>
      (\<exists>r d'. w (pf_value pf) (pf_confidence pf) d = Inr (r, d') \<and> fieldName r = n)"
    and nm: "\<And>pf d. f = Some pf \<Longrightarrow>
      \<exists>r d'. w (pf_value pf) (pf_confidence pf) d = Inr (r, d') \<and> fieldName r = n"
    by (auto simp: s)
  show ?case
  proof (cases f)
    case None
    then show ?thesis using Cons.IH [OF rest] by (simp add: s call_writer_def)
  next
    case (Some pf)
    from nm [OF Some, of doc] obtain r d'
      where w: "w (pf_value pf) (pf_confidence pf) doc = Inr (r, d')" and "fieldName r = n"
      by blast
    then show ?thesis using Cons.IH [OF rest, of "acc @ [r]" d'] by (simp add: s call_writer_def Some w)
  qed
qed

lemma fieldMappings_specs:
  "fieldMappings parse data = map (\<lambda>(p, n, f, w). (p, n, call_writer f w))
     [([''Purchaser Name''], ''Purchaser Name'', purchaser_name data,
         (\<lambda>v c d. Inr (fillTextFieldByPattern [''Purchaser Name''] ''Purchaser Name'' v c False d))),
      ([''Purchaser's NetID''], ''NetID'', netid data,
         (\<lambda>v c d. Inr (fillTextFieldByPattern [''Purchaser's NetID''] ''NetID'' v c False d))),
      ([''Club/Organization''], ''Club/Organization'', club_name data,
         (\<lambda>v c d. Inr (fillDropdownByPattern [''Club/Organization''] ''Club/Organization'' v c d))),
      ([''Payment Method''], ''Payment Method'', payment_method data,
         (\<lambda>v c. fillRadioGroupByPattern [''Payment Method''] PaymentMethod v c)),
      ([''Vendor Name''], ''Vendor Name'', vendor_name data,
         (\<lambda>v c d. Inr (fillTextFieldByPattern [''Vendor Name''] ''Vendor Name'' v c False d))),
      ([''Date of Expense''], ''Date of Expense'', date_of_expense data,
         (\<lambda>v c d. Inr (fillTextFieldByPattern [''Date of Expense''] ''Date of Expense''
                          (formatDate parse v) c False d))),
      ([''Expense Amount''], ''Expense Amount'', total_amount data,
         (\<lambda>v c d. Inr (fillTextFieldByPattern [''Expense Amount''] ''Expense Amount'' v c False d))),
      ([''Purchase Type''], ''Purchase Type'', purchase_type data,
         (\<lambda>v c. fillRadioGroupByPattern [''Purchase Type''] PurchaseType v c)),
      ([''Include the link to the applicable NYU Engage event''], ''Event Link'', event_link data,
         (\<lambda>v c d. Inr (fillTextFieldByPattern [''Include the link'', ''NYU Engage event'']
                          ''Event Link'' v c False d))),
      ([''In a few sentences'', ''describe the reason for the purchase''], ''Description'',
         description data,
         (\<lambda>v c d. Inr (fillTextFieldByPattern
                          [''In a few sentences'', ''describe the reason for the purchase'']
                          ''Description'' v c True d)))]"
  by (simp add: fieldMappings_def)

lemma result_names:
  assumes pay: "\<forall>f. payment_method data = Some f \<longrightarrow> radio_patterns PaymentMethod (pf_value f) \<noteq> None"
    and pur: "\<forall>f. purchase_type data = Some f \<longrightarrow> radio_patterns PurchaseType (pf_value f) \<noteq> None"
  shows "map fieldName (results (fst (fillExpenseForm parse data doc)))
     = map fst (filter (\<lambda>(n, f). f \<noteq> None) (table_fields data))"
proof -
  have p1: "\<exists>r. (\<exists>d'. fillRadioGroupByPattern [''Payment Method''] PaymentMethod (pf_value pf)
                (pf_confidence pf) d = Inr (r, d')) \<and> fieldName r = ''Payment Method''"
    if "payment_method data = Some pf" for pf d
    using pay that
      radio_returns [of PaymentMethod "pf_value pf" "[''Payment Method'']" "pf_confidence pf" d]
    by auto
  have p2: "\<exists>r. (\<exists>d'. fillRadioGroupByPattern [''Purchase Type''] PurchaseType (pf_value pf)
                (pf_confidence pf) d = Inr (r, d')) \<and> fieldName r = ''Purchase Type''"
    if "purchase_type data = Some pf" for pf d
    using pur that
      radio_returns [of PurchaseType "pf_value pf" "[''Purchase Type'']" "pf_confidence pf" d]
    by auto
  have t: "\<exists>r. (\<exists>d'. fillTextFieldByPattern pat name v c a d = (r, d')) \<and> fieldName r = name"
    for pat name v c a d
    using text_fieldName [of pat name v c a d]
    by (cases "fillTextFieldByPattern pat name v c a d") auto
  have s: "\<exists>r. (\<exists>d'. fillDropdownByPattern pat name v c d = (r, d')) \<and> fieldName r = name"
    for pat name v c d
    using dropdown_fieldName [of pat name v c d]
    by (cases "fillDropdownByPattern pat name v c d") auto
  have "map fieldName (fst (run_fields (fieldMappings parse data) [] doc))
     = map fst (filter (\<lambda>(n, f). f \<noteq> None) (table_fields data))"
    unfolding fieldMappings_specs
    by (subst run_fields_call_writer_names) (simp_all add: table_fields_def p1 p2 t s)
  then show ?thesis by (simp add: fillExpenseForm_results)
qed

lemma run_fields_caught:
  "h doc = Inl (e, doc') \<Longrightarrow>
     run_fields ((labelPattern, name, h) # rest) acc doc = run_fields rest acc doc'"
  by simp

lemma find_payment_doc: "findFieldByLabel [''Payment Method''] payment_doc = Some 0"
  by (simp add: findFieldByLabel_def payment_doc_def radio_group_def string_defs)

lemma constructor_throws:
  "fillRadioGroupByPattern [''Payment Method''] PaymentMethod ''constructor'' 0.9 payment_doc
     = Inl TypeError"
proof -
  have ne: "radios (payment_doc ! 0) \<noteq> []" by (simp add: payment_doc_def radio_group_def)
  have nu: "\<not> isUnknownValue ''constructor'' 0.9"
    by (simp add: isUnknownValue_def is_unknown_marker_def string_defs UNKNOWN_THRESHOLD_def)
  have rp: "radio_patterns PaymentMethod ''constructor'' = None"
    by (simp add: radio_patterns_def valueMappings_def own_patterns_def
          object_prototype_member_def)
  show ?thesis unfolding radio_result [OF find_payment_doc ne] using nu rp by simp
qed

text \<open>
  Claim C5, as the code has it. An exception raised by a field's handler is caught inside
  the loop: the loop goes on with the next field, on the document as the handler left it,
  and pushes no result, so that a handler that always throws has the effect of a table
  entry that is not there. A handler of the table throws when its record property is absent
  and when its writer throws. The failing field gets no FillResult at all: when no
  choice-group value makes its writer throw, the results hold one entry for every field
  whose record property is present, in table order, and none for a field whose handler
  throws on an absent property, while \<open>totalFields\<close> stays at the ten entries of the table.
\<close>

theorem C5_fault_isolation:
  "((\<forall>d. h d = Inl (e, d)) \<longrightarrow>
      run_fields (before @ (labelPattern, name, h) # rest) acc doc
        = run_fields (before @ rest) acc doc)
   \<and> (h doc = Inl (e, doc') \<longrightarrow>
        run_fields ((labelPattern, name, h) # rest) acc doc = run_fields rest acc doc')
   \<and> call_writer None w doc = Inl (TypeError, doc)
   \<and> (w (pf_value f) (pf_confidence f) doc = Inl e \<longrightarrow> call_writer (Some f) w doc = Inl (e, doc))
   \<and> totalFields (fst (fillExpenseForm parse data doc)) = 10
   \<and> ((\<forall>f. payment_method data = Some f \<longrightarrow> radio_patterns PaymentMethod (pf_value f) \<noteq> None)
        \<and> (\<forall>f. purchase_type data = Some f \<longrightarrow> radio_patterns PurchaseType (pf_value f) \<noteq> None)
      \<longrightarrow> map fieldName (results (fst (fillExpenseForm parse data doc)))
            = map fst (filter (\<lambda>(n, f). f \<noteq> None) (table_fields data)))"
  using run_fields_throwing [of h e before labelPattern name rest acc doc]
    run_fields_caught [of h doc e doc' labelPattern name rest acc]
    result_names [of data parse doc]
  by (simp add: call_writer_def fillExpenseForm_total)

theorem C5_fault_isolation_witness:
  "map fieldName (results (fst (fillExpenseForm march_parser nameless_record payment_doc)))
     = [''NetID'', ''Club/Organization'', ''Payment Method'', ''Vendor Name'', ''Date of Expense'',
        ''Expense Amount'', ''Purchase Type'', ''Event Link'', ''Description'']
   \<and> run_fields [([''Purchaser Name''], ''Purchaser Name'', call_writer None
          (\<lambda>v c d. Inr (fillTextFieldByPattern [''Purchaser Name''] ''Purchaser Name'' v c False d)))]
        [] payment_doc = ([], payment_doc)
   \<and> call_writer (Some \<lparr>pf_value = ''constructor'', pf_confidence = 0.9\<rparr>)
        (fillRadioGroupByPattern [''Payment Method''] PaymentMethod) payment_doc
      = Inl (TypeError, payment_doc)
   \<and> run_fields [([''Payment Method''], ''Payment Method'',
          call_writer (Some \<lparr>pf_value = ''constructor'', pf_confidence = 0.9\<rparr>)
            (fillRadioGroupByPattern [''Payment Method''] PaymentMethod))]
        [] payment_doc = ([], payment_doc)"
proof -
  let ?w = "\<lambda>v c d. (Inr (fillTextFieldByPattern [''Purchaser Name''] ''Purchaser Name'' v c False d)
      :: js_error + FillResult \<times> document)"
  let ?f = "\<lparr>pf_value = ''constructor'', pf_confidence = 0.9\<rparr>"
  let ?r = "fillRadioGroupByPattern [''Payment Method''] PaymentMethod"
  have h: "\<forall>d. call_writer None ?w d = Inl (TypeError, d)"
    by (simp add: call_writer_def)
  have a: "run_fields ([] @ ([''Purchaser Name''], ''Purchaser Name'', call_writer None ?w) # [])
        [] payment_doc = run_fields ([] @ []) [] payment_doc"
    using C5_fault_isolation [where before = "[]" and rest = "[]" and e = TypeError
        and h = "call_writer None ?w"] h
    by blast
  have ok: "(\<forall>f. payment_method nameless_record = Some f \<longrightarrow>
                radio_patterns PaymentMethod (pf_value f) \<noteq> None)
        \<and> (\<forall>f. purchase_type nameless_record = Some f \<longrightarrow>
                radio_patterns PurchaseType (pf_value f) \<noteq> None)"
    by (auto simp: nameless_record_def radio_patterns_def valueMappings_def own_patterns_def)
  have b: "map fieldName (results (fst (fillExpenseForm march_parser nameless_record payment_doc)))
       = map fst (filter (\<lambda>(n, f). f \<noteq> None) (table_fields nameless_record))"
    using C5_fault_isolation [where parse = march_parser and data = nameless_record
        and doc = payment_doc] ok by blast
  have c: "map fst (filter (\<lambda>(n, f). f \<noteq> None) (table_fields nameless_record))
     = [''NetID'', ''Club/Organization'', ''Payment Method'', ''Vendor Name'', ''Date of Expense'',
        ''Expense Amount'', ''Purchase Type'', ''Event Link'', ''Description'']"
    by (simp add: table_fields_def nameless_record_def)
  have t: "?r (pf_value ?f) (pf_confidence ?f) payment_doc = Inl TypeError"
    using constructor_throws by simp
  have d: "call_writer (Some ?f) ?r payment_doc = Inl (TypeError, payment_doc)"
    using C5_fault_isolation [where w = ?r and f = ?f and doc = payment_doc and e = TypeError] t
    by blast
  have e: "run_fields [([''Payment Method''], ''Payment Method'', call_writer (Some ?f) ?r)]
        [] payment_doc = run_fields [] [] payment_doc"
    using C5_fault_isolation [where h = "call_writer (Some ?f) ?r" and doc = payment_doc
        and e = TypeError and doc' = payment_doc and rest = "[]" and acc = "[]"
        and labelPattern = "[''Payment Method'']" and name = "''Payment Method''"] d
    by blast
  show ?thesis using a b c d e by simp
qed

text \<open>
  Claim C5 as stated fails on its last part: for a record without the purchaser's name the
  handler of the first table entry throws, and the summary then holds nine results for ten
  table entries, none of them for the field \<open>Purchaser Name\<close>; the failing field is not
  turned into a result with \<open>filled = false\<close> and \<open>needsReview = false\<close>. The same holds
  when the property is there and the writer throws: the payment method \<open>constructor\<close> makes
  the choice-group writer throw, and the summary holds no result for \<open>Payment Method\<close>.
\<close>

theorem C5_no_result_for_failing_field_counterexample:
  "purchaser_name nameless_record = None
   \<and> totalFields (fst (fillExpenseForm march_parser nameless_record payment_doc)) = 10
   \<and> length (results (fst (fillExpenseForm march_parser nameless_record payment_doc))) = 9
   \<and> ''Purchaser Name''
       \<notin> set (map fieldName (results (fst (fillExpenseForm march_parser nameless_record payment_doc))))
   \<and> payment_method constructor_record
       = Some \<lparr>pf_value = ''constructor'', pf_confidence = 0.9\<rparr>
   \<and> fst (fillExpenseForm march_parser constructor_record payment_doc)
       = \<lparr>results = [], totalFields = 10, filledFields = 0, lowConfidenceFields = 0\<rparr>"
proof -
  have ok: "(\<forall>f. payment_method nameless_record = Some f \<longrightarrow>
                radio_patterns PaymentMethod (pf_value f) \<noteq> None)"
      "(\<forall>f. purchase_type nameless_record = Some f \<longrightarrow>
                radio_patterns PurchaseType (pf_value f) \<noteq> None)"
    by (auto simp: nameless_record_def radio_patterns_def valueMappings_def own_patterns_def)
  have n: "map fieldName (results (fst (fillExpenseForm march_parser nameless_record payment_doc)))
     = [''NetID'', ''Club/Organization'', ''Payment Method'', ''Vendor Name'', ''Date of Expense'',
        ''Expense Amount'', ''Purchase Type'', ''Event Link'', ''Description'']"
    unfolding result_names [OF ok] by (simp add: table_fields_def nameless_record_def)
  have l: "length (results (fst (fillExpenseForm march_parser nameless_record payment_doc)))
      = length (map fieldName (results (fst (fillExpenseForm march_parser nameless_record payment_doc))))"
    by simp
  have t: "totalFields (fst (fillExpenseForm march_parser nameless_record payment_doc)) = 10"
    by (rule fillExpenseForm_total)
  have r: "run_fields (fieldMappings march_parser constructor_record) [] payment_doc
      = ([], payment_doc)"
    using constructor_throws
    by (simp add: fieldMappings_def constructor_record_def call_writer_def)
  have c: "fst (fillExpenseForm march_parser constructor_record payment_doc)
       = \<lparr>results = [], totalFields = 10, filledFields = 0, lowConfidenceFields = 0\<rparr>"
    by (simp add: fillExpenseForm_def r) (simp add: fieldMappings_def)
  have p: "payment_method constructor_record
       = Some \<lparr>pf_value = ''constructor'', pf_confidence = 0.9\<rparr>"
    by (simp add: constructor_record_def)
  show ?thesis unfolding l n using t c p by (simp add: nameless_record_def)
qed

lemma show_nat_length_ge: "1000 \<le> n \<Longrightarrow> 4 \<le> length (show_nat n)"
proof (induction n rule: show_nat.induct)
  case (1 n)
  show ?case
  proof (cases "n < 10000")
    case True
    with 1(2) show ?thesis by (simp add: show_nat_4)
  next
    case False
    then have "1000 \<le> n div 10" by simp
    with 1 False have "4 \<le> length (show_nat (n div 10))" by simp
    with False show ?thesis by (subst show_nat.simps) simp
  qed
qed

lemma show_nat_length_4: "(length (show_nat n) = 4) = (1000 \<le> n \<and> n < 10000)"
proof -
  consider "n < 10" | "10 \<le> n \<and> n < 100" | "100 \<le> n \<and> n < 1000"
    | "1000 \<le> n \<and> n < 10000" | "10000 \<le> n"
    by linarith
  then show ?thesis
  proof cases
    case 1 then show ?thesis by (simp add: show_nat_1)
  next
    case 2 then show ?thesis by (simp add: show_nat_2)
  next
    case 3 then show ?thesis by (simp add: show_nat_3)
  next
    case 4 then show ?thesis by (simp add: show_nat_4)
  next
    case 5
    then have "1000 \<le> n div 10" by simp
    then have "4 \<le> length (show_nat (n div 10))" by (rule show_nat_length_ge)
    with 5 show ?thesis by (subst show_nat.simps) simp
  qed
qed

lemma is_mmddyyyy_D:
  "is_mmddyyyy (m @ ''/'' @ d @ ''/'' @ y) \<Longrightarrow> length m = 2 \<Longrightarrow> length d = 2 \<Longrightarrow>
     length y = 4 \<and> is_digit (hd y)"
proof -
  assume a: "is_mmddyyyy (m @ ''/'' @ d @ ''/'' @ y)" and m: "length m = 2" and d: "length d = 2"
  from m obtain m1 m2 where m': "m = [m1, m2]"
    by (cases m; cases "tl m") auto
  from d obtain d1 d2 where d': "d = [d1, d2]"
    by (cases d; cases "tl d") auto
  from a show ?thesis
    unfolding m' d' by (auto simp: is_mmddyyyy_def split: list.splits)
qed

lemma formatted_shape_iff:
  assumes "month0 d < 12" "day_of_month d < 32"
  shows "is_mmddyyyy (pad2 (show_nat (month0 d + 1)) @ ''/'' @ pad2 (show_nat (day_of_month d))
                  @ ''/'' @ show_int (full_year d))
     = (1000 \<le> full_year d \<and> full_year d \<le> 9999)"
proof
  assume "1000 \<le> full_year d \<and> full_year d \<le> 9999"
  then show "is_mmddyyyy (pad2 (show_nat (month0 d + 1)) @ ''/'' @ pad2 (show_nat (day_of_month d))
                  @ ''/'' @ show_int (full_year d))"
    using formatted_shape [OF assms] by simp
next
  assume a: "is_mmddyyyy (pad2 (show_nat (month0 d + 1)) @ ''/'' @ pad2 (show_nat (day_of_month d))
                  @ ''/'' @ show_int (full_year d))"
  have m: "length (pad2 (show_nat (month0 d + 1))) = 2"
    using pad2_two_digits [of "month0 d + 1"] assms(1) by auto
  have dd: "length (pad2 (show_nat (day_of_month d))) = 2"
    using pad2_two_digits [of "day_of_month d"] assms(2) by auto
  from is_mmddyyyy_D [OF a m dd]
  have y: "length (show_int (full_year d)) = 4" "is_digit (hd (show_int (full_year d)))"
    by simp_all
  have pos: "0 \<le> full_year d"
  proof (rule ccontr)
    assume "\<not> 0 \<le> full_year d"
    then have "hd (show_int (full_year d)) = CHR ''-''" by (simp add: show_int_def)
    with y(2) show False by (simp add: is_digit_def)
  qed
  then have "length (show_nat (nat (full_year d))) = 4" using y(1) by (simp add: show_int_def)
  then have "1000 \<le> nat (full_year d) \<and> nat (full_year d) < 10000"
    by (simp add: show_nat_length_4)
  then show "1000 \<le> full_year d \<and> full_year d \<le> 9999" by linarith
qed

lemma radio_fieldName:
  "fillRadioGroupByPattern pat field v conf doc = Inr (r, d') \<Longrightarrow> fieldName r = field_name field"
  by (auto simp: fillRadioGroupByPattern_def not_filled_def Let_def
        split: option.splits if_splits)

text \<open>Every result of the loop was returned by a handler of the table.\<close>

lemma run_fields_results:
  "r \<in> set (fst (run_fields specs acc doc)) \<Longrightarrow>
     r \<in> set acc \<or> (\<exists>(p, n, h) \<in> set specs. \<exists>d d'. h d = Inr (Some r, d'))"
proof (induction specs arbitrary: acc doc)
  case Nil
  then show ?case by simp
next
  case (Cons s specs)
  obtain p n h where s: "s = (p, n, h)" by (cases s) auto
  show ?case
  proof (cases "h doc")
    case (Inl a)
    obtain e d' where a: "a = (e, d')" by (cases a) auto
    from Cons.prems have "r \<in> set (fst (run_fields specs acc d'))" by (simp add: s Inl a)
    from Cons.IH [OF this] show ?thesis by auto
  next
    case (Inr b)
    obtain res d' where b: "b = (res, d')" by (cases b) auto
    show ?thesis
    proof (cases res)
      case None
      from Cons.prems have "r \<in> set (fst (run_fields specs acc d'))" by (simp add: s Inr b None)
      from Cons.IH [OF this] show ?thesis by auto
    next
      case (Some x)
      from Cons.prems have "r \<in> set (fst (run_fields specs (acc @ [x]) d'))"
        by (simp add: s Inr b Some)
      from Cons.IH [OF this] have "r \<in> set acc \<or> r = x
          \<or> (\<exists>(p, n, h) \<in> set specs. \<exists>d d'. h d = Inr (Some r, d'))" by auto
      moreover have "r = x \<Longrightarrow> h doc = Inr (Some r, d')" by (simp add: Inr b Some)
      ultimately show ?thesis unfolding s by auto
    qed
  qed
qed

lemma call_writer_D:
  "call_writer fld w d = Inr (Some r, d') \<Longrightarrow>
     \<exists>f. fld = Some f \<and> w (pf_value f) (pf_confidence f) d = Inr (r, d')"
  by (auto simp: call_writer_def split: option.splits sum.splits)

lemma text_name_D:
  "fillTextFieldByPattern pat name v c a d = (r, d') \<Longrightarrow> fieldName r = name"
  using text_fieldName [of pat name v c a d] by simp

lemma dropdown_name_D:
  "fillDropdownByPattern pat name v c d = (r, d') \<Longrightarrow> fieldName r = name"
  using dropdown_fieldName [of pat name v c d] by simp

lemma date_entry:
  assumes m: "(p, ''Date of Expense'', h) \<in> set (fieldMappings parse data)"
  shows "h = call_writer (date_of_expense data)
           (\<lambda>v c d. Inr (fillTextFieldByPattern [''Date of Expense''] ''Date of Expense''
                            (formatDate parse v) c False d))"
  using m by (simp add: fieldMappings_def)

lemma handler_result_name:
  assumes m: "(p, n, h) \<in> set (fieldMappings parse data)" and h: "h d = Inr (Some r, d')"
  shows "fieldName r = n"
  using m h
  by (auto simp: fieldMappings_def dest!: call_writer_D dest: text_name_D dropdown_name_D radio_fieldName)

lemma date_results:
  assumes r: "r \<in> set (results (fst (fillExpenseForm parse data doc)))"
    and n: "fieldName r = ''Date of Expense''" and f: "filled r"
  shows "\<exists>f. date_of_expense data = Some f \<and> fill_value r = Some (formatDate parse (pf_value f))"
proof -
  from r have "r \<in> set (fst (run_fields (fieldMappings parse data) [] doc))"
    by (simp add: fillExpenseForm_results)
  from run_fields_results [OF this] obtain p n' h d d'
    where m: "(p, n', h) \<in> set (fieldMappings parse data)" and h: "h d = Inr (Some r, d')"
    by auto
  have "n' = ''Date of Expense''" using handler_result_name [OF m h] n by simp
  with m have "h = call_writer (date_of_expense data)
           (\<lambda>v c d. Inr (fillTextFieldByPattern [''Date of Expense''] ''Date of Expense''
                            (formatDate parse v) c False d))"
    using date_entry by simp
  with h obtain pf where pf: "date_of_expense data = Some pf"
    and w: "fillTextFieldByPattern [''Date of Expense''] ''Date of Expense''
              (formatDate parse (pf_value pf)) (pf_confidence pf) False d = (r, d')"
    by (auto dest!: call_writer_D)
  from text_filled_D [OF w f] have "fill_value r = Some (formatDate parse (pf_value pf))" by auto
  with pf show ?thesis by simp
qed


text \<open>
  Claim C10, as the code has it. The value handed to the text writer for the Date of Expense
  field is \<open>formatDate\<close> of the record's value, never the raw value: the handler of that
  table entry is the text writer on \<open>formatDate (data.date_of_expense.value)\<close>; on a located,
  free input and a formatted value that passes the unknown-value check it returns a filled
  result, and result and input hold the formatted text; and every filled result of a pass
  that is named \<open>Date of Expense\<close> holds the formatted text. \<open>formatDate\<close> returns an input
  of the shape \<open>MM/DD/YYYY\<close> unchanged; an input that does not parse (the empty string among
  them) unchanged; and an input that parses as month and day zero-padded to two digits each,
  followed by the year as it is, without padding. So the result for a parsed date is of the
  shape \<open>MM/DD/YYYY\<close> exactly when the year lies between 1000 and 9999.
\<close>

theorem C10_date_normalization:
  "formatDate parse [] = []
   \<and> (is_mmddyyyy s \<longrightarrow> formatDate parse s = s)
   \<and> (\<not> is_mmddyyyy s \<and> parse s = None \<longrightarrow> formatDate parse s = s)
   \<and> (s \<noteq> [] \<and> \<not> is_mmddyyyy s \<and> parse s = Some d \<longrightarrow>
        formatDate parse s =
          pad2 (show_nat (month0 d + 1)) @ ''/'' @ pad2 (show_nat (day_of_month d))
            @ ''/'' @ show_int (full_year d))
   \<and> (s \<noteq> [] \<and> \<not> is_mmddyyyy s \<and> parse s = Some d \<and> month0 d < 12 \<and> day_of_month d < 32
        \<longrightarrow> is_mmddyyyy (formatDate parse s) = (1000 \<le> full_year d \<and> full_year d \<le> 9999))
   \<and> fst (snd (fieldMappings parse data ! 5)) = ''Date of Expense''
   \<and> (date_of_expense data = Some f \<longrightarrow>
        snd (snd (fieldMappings parse data ! 5)) doc =
          (case fillTextFieldByPattern [''Date of Expense''] ''Date of Expense''
                  (formatDate parse (pf_value f)) (pf_confidence f) False doc of
             (r, doc') \<Rightarrow> Inr (Some r, doc')))
   \<and> (date_of_expense data = Some f \<and> findFieldByLabel [''Date of Expense''] doc = Some i
        \<and> text_field (doc ! i) = Some inp \<and> \<not> holds_foreign_value inp
        \<and> \<not> isUnknownValue (formatDate parse (pf_value f)) (pf_confidence f) \<longrightarrow>
        (\<exists>r doc'. snd (snd (fieldMappings parse data ! 5)) doc = Inr (Some r, doc')
           \<and> filled r \<and> fill_value r = Some (formatDate parse (pf_value f))
           \<and> text_field (doc' ! i)
               = Some \<lparr>input_value = formatDate parse (pf_value f), data_autofilled = True\<rparr>))
   \<and> (date_of_expense data = Some f
        \<and> snd (snd (fieldMappings parse data ! 5)) doc = Inr (Some r, doc') \<and> filled r \<longrightarrow>
        fill_value r = Some (formatDate parse (pf_value f))
        \<and> (\<exists>i. findFieldByLabel [''Date of Expense''] doc = Some i
              \<and> map_option input_value (text_field (doc' ! i))
                  = Some (formatDate parse (pf_value f))))
   \<and> (\<forall>r \<in> set (results (fst (fillExpenseForm parse data doc))).
        fieldName r = ''Date of Expense'' \<and> filled r \<longrightarrow>
        (\<exists>f. date_of_expense data = Some f
           \<and> fill_value r = Some (formatDate parse (pf_value f))))"
proof -
  have a: "formatDate parse [] = []" by (simp add: formatDate_def)
  have b: "is_mmddyyyy s \<longrightarrow> formatDate parse s = s" by (simp add: formatDate_def)
  have c: "\<not> is_mmddyyyy s \<and> parse s = None \<longrightarrow> formatDate parse s = s"
    by (simp add: formatDate_def)
  have d: "s \<noteq> [] \<and> \<not> is_mmddyyyy s \<and> parse s = Some d \<longrightarrow>
        formatDate parse s =
          pad2 (show_nat (month0 d + 1)) @ ''/'' @ pad2 (show_nat (day_of_month d))
            @ ''/'' @ show_int (full_year d)"
    by (simp add: formatDate_def)
  have e: "s \<noteq> [] \<and> \<not> is_mmddyyyy s \<and> parse s = Some d \<and> month0 d < 12 \<and> day_of_month d < 32
        \<longrightarrow> is_mmddyyyy (formatDate parse s) = (1000 \<le> full_year d \<and> full_year d \<le> 9999)"
    using formatted_shape_iff [of d] by (simp add: formatDate_def)
  have f: "fst (snd (fieldMappings parse data ! 5)) = ''Date of Expense''"
    by (simp add: fieldMappings_def)
  have g: "date_of_expense data = Some f \<longrightarrow>
        snd (snd (fieldMappings parse data ! 5)) doc =
          (case fillTextFieldByPattern [''Date of Expense''] ''Date of Expense''
                  (formatDate parse (pf_value f)) (pf_confidence f) False doc of
             (r, doc') \<Rightarrow> Inr (Some r, doc'))"
    by (simp add: fieldMappings_def call_writer_def)
  have h: "date_of_expense data = Some f \<and> findFieldByLabel [''Date of Expense''] doc = Some i
        \<and> text_field (doc ! i) = Some inp \<and> \<not> holds_foreign_value inp
        \<and> \<not> isUnknownValue (formatDate parse (pf_value f)) (pf_confidence f) \<longrightarrow>
        (\<exists>r doc'. snd (snd (fieldMappings parse data ! 5)) doc = Inr (Some r, doc')
           \<and> filled r \<and> fill_value r = Some (formatDate parse (pf_value f))
           \<and> text_field (doc' ! i)
               = Some \<lparr>input_value = formatDate parse (pf_value f), data_autofilled = True\<rparr>)"
  proof (intro impI, elim conjE)
    assume p: "date_of_expense data = Some f"
      and q: "findFieldByLabel [''Date of Expense''] doc = Some i"
      "text_field (doc ! i) = Some inp" and free: "\<not> holds_foreign_value inp"
      and nu: "\<not> isUnknownValue (formatDate parse (pf_value f)) (pf_confidence f)"
    have i: "i < length doc" using q(1) by (rule findFieldByLabel_bound)
    show "\<exists>r doc'. snd (snd (fieldMappings parse data ! 5)) doc = Inr (Some r, doc')
           \<and> filled r \<and> fill_value r = Some (formatDate parse (pf_value f))
           \<and> text_field (doc' ! i)
               = Some \<lparr>input_value = formatDate parse (pf_value f), data_autofilled = True\<rparr>"
      using g p unfolding text_result [OF q]
      using free nu i q(2)
      by (simp add: write_text_def markLowConfidenceField_def)
  qed
  have k: "date_of_expense data = Some f
        \<and> snd (snd (fieldMappings parse data ! 5)) doc = Inr (Some r, doc') \<and> filled r \<longrightarrow>
        fill_value r = Some (formatDate parse (pf_value f))
        \<and> (\<exists>i. findFieldByLabel [''Date of Expense''] doc = Some i
              \<and> map_option input_value (text_field (doc' ! i))
                  = Some (formatDate parse (pf_value f)))"
  proof (intro impI, elim conjE)
    assume h: "date_of_expense data = Some f"
      "snd (snd (fieldMappings parse data ! 5)) doc = Inr (Some r, doc')" "filled r"
    from h(1,2) have "fillTextFieldByPattern [''Date of Expense''] ''Date of Expense''
        (formatDate parse (pf_value f)) (pf_confidence f) False doc = (r, doc')"
      by (simp add: fieldMappings_def call_writer_def split: prod.splits)
    from text_filled_D [OF this h(3)] show "fill_value r = Some (formatDate parse (pf_value f))
        \<and> (\<exists>i. findFieldByLabel [''Date of Expense''] doc = Some i
              \<and> map_option input_value (text_field (doc' ! i))
                  = Some (formatDate parse (pf_value f)))"
      by auto
  qed
  have l: "\<forall>r \<in> set (results (fst (fillExpenseForm parse data doc))).
        fieldName r = ''Date of Expense'' \<and> filled r \<longrightarrow>
        (\<exists>f. date_of_expense data = Some f
           \<and> fill_value r = Some (formatDate parse (pf_value f)))"
    using date_results [of _ parse data doc] by blast
  show ?thesis using a b c d e f g h k l by blast
qed

theorem C10_date_normalization_witness:
  "formatDate march_parser ''03/05/2024'' = ''03/05/2024''
   \<and> formatDate march_parser ''next tuesday'' = ''next tuesday''
   \<and> formatDate march_parser ''2024-03-05'' = ''03/05/2024''
   \<and> is_mmddyyyy (formatDate march_parser ''2024-03-05'')
   \<and> (case snd (snd (fieldMappings march_parser date_record ! 5)) date_doc of
         Inl error \<Rightarrow> False
       | Inr (result, doc') \<Rightarrow>
           map_option fill_value result = Some (Some ''03/05/2024'')
           \<and> text_field (doc' ! 0)
               = Some \<lparr>input_value = ''03/05/2024'', data_autofilled = True\<rparr>)
   \<and> map fill_value (results (fst (fillExpenseForm march_parser date_record date_doc)))
       = [Some ''03/05/2024'']"
proof -
  let ?d = "\<lparr>full_year = 2024, month0 = 2, day_of_month = 5\<rparr>"
  let ?f = "\<lparr>pf_value = ''2024-03-05'', pf_confidence = 0.9\<rparr>"
  let ?inp = "\<lparr>input_value = [], data_autofilled = False\<rparr>"
  let ?h = "snd (snd (fieldMappings march_parser date_record ! 5))"
  have s1: "is_mmddyyyy ''03/05/2024''" by (simp add: is_mmddyyyy_def is_digit_def)
  have s2: "\<not> is_mmddyyyy ''next tuesday'' \<and> march_parser ''next tuesday'' = None"
    by (simp add: is_mmddyyyy_def march_parser_def)
  have s3: "''2024-03-05'' \<noteq> [] \<and> \<not> is_mmddyyyy ''2024-03-05''
      \<and> march_parser ''2024-03-05'' = Some ?d"
    by (simp add: is_mmddyyyy_def march_parser_def is_digit_def)
  have s4: "month0 ?d < 12 \<and> day_of_month ?d < 32" by simp
  have s5: "1000 \<le> full_year ?d \<and> full_year ?d \<le> 9999" by simp
  have w1: "formatDate march_parser ''03/05/2024'' = ''03/05/2024''"
    using C10_date_normalization [where s = "''03/05/2024''" and parse = march_parser] s1
    by blast
  have w2: "formatDate march_parser ''next tuesday'' = ''next tuesday''"
    using C10_date_normalization [where s = "''next tuesday''" and parse = march_parser] s2
    by blast
  have "formatDate march_parser ''2024-03-05'' =
        pad2 (show_nat (month0 ?d + 1)) @ ''/'' @ pad2 (show_nat (day_of_month ?d))
            @ ''/'' @ show_int (full_year ?d)"
    using C10_date_normalization [where s = "''2024-03-05''" and parse = march_parser and d = ?d] s3
    by blast
  also have "\<dots> = ''03/05/2024''"
    by (simp add: show_nat.simps pad2_def show_int_def digit_char_def)
  finally have w3: "formatDate march_parser ''2024-03-05'' = ''03/05/2024''" .
  have w4: "is_mmddyyyy (formatDate march_parser ''2024-03-05'')"
    using C10_date_normalization [where s = "''2024-03-05''" and parse = march_parser and d = ?d]
      s3 s4 s5 by blast
  have fd: "findFieldByLabel [''Date of Expense''] date_doc = Some 0"
    by (simp add: findFieldByLabel_def date_doc_def text_group_def string_defs)
  have nu: "\<not> isUnknownValue ''03/05/2024'' 0.9"
    by (simp add: isUnknownValue_def is_unknown_marker_def UNKNOWN_THRESHOLD_def string_defs)
  have hyp: "date_of_expense date_record = Some ?f
      \<and> findFieldByLabel [''Date of Expense''] date_doc = Some 0
      \<and> text_field (date_doc ! 0) = Some ?inp \<and> \<not> holds_foreign_value ?inp
      \<and> \<not> isUnknownValue (formatDate march_parser (pf_value ?f)) (pf_confidence ?f)"
    using fd nu
    by (simp add: date_record_def date_doc_def text_group_def holds_foreign_value_def w3)
  from C10_date_normalization [where parse = march_parser and data = date_record
      and f = ?f and doc = date_doc and i = 0 and inp = ?inp] hyp
  obtain r0 d0 where h: "?h date_doc = Inr (Some r0, d0)" and fl: "filled r0"
    and fv: "fill_value r0 = Some (formatDate march_parser (pf_value ?f))"
    and tf: "text_field (d0 ! 0)
        = Some \<lparr>input_value = formatDate march_parser (pf_value ?f), data_autofilled = True\<rparr>"
    by blast
  have w5: "case ?h date_doc of
         Inl error \<Rightarrow> False
       | Inr (result, doc') \<Rightarrow>
           map_option fill_value result = Some (Some ''03/05/2024'')
           \<and> text_field (doc' ! 0)
               = Some \<lparr>input_value = ''03/05/2024'', data_autofilled = True\<rparr>"
    using fv tf by (simp add: h w3)
  have h': "call_writer (Some ?f)
      (\<lambda>v c d. Inr (fillTextFieldByPattern [''Date of Expense''] ''Date of Expense''
                       (formatDate march_parser v) c False d)) date_doc = Inr (Some r0, d0)"
    using h by (simp add: fieldMappings_def date_record_def)
  have run: "run_fields (fieldMappings march_parser date_record) [] date_doc = ([r0], d0)"
    using h' by (simp add: fieldMappings_def date_record_def) (simp add: call_writer_def)
  have res: "results (fst (fillExpenseForm march_parser date_record date_doc)) = [r0]"
    by (simp add: fillExpenseForm_results run)
  have n0: "fieldName r0 = ''Date of Expense''"
    using h' by (auto simp: call_writer_def split: prod.splits dest: text_name_D)
  have "\<exists>f. date_of_expense date_record = Some f
      \<and> fill_value r0 = Some (formatDate march_parser (pf_value f))"
    using C10_date_normalization [where parse = march_parser and data = date_record
      and doc = date_doc] res n0 fl
    by simp
  then have "fill_value r0 = Some ''03/05/2024''" by (auto simp: date_record_def w3)
  then have w6: "map fill_value (results (fst (fillExpenseForm march_parser date_record date_doc)))
       = [Some ''03/05/2024'']"
    by (simp add: res)
  show ?thesis using w1 w2 w3 w4 w5 w6 by blast
qed

text \<open>
  Claim C10 as stated fails on the shape of a reformatted date: the year is not padded. The
  input \<open>0099-12-25\<close> parses as a date of the year 99 and is reformatted to \<open>12/25/99\<close>,
  which is not of the shape \<open>MM/DD/YYYY\<close>.
\<close>

theorem C10_year_not_padded_counterexample:
  "first_century_parser ''0099-12-25''
     = Some \<lparr>full_year = 99, month0 = 11, day_of_month = 25\<rparr>
   \<and> formatDate first_century_parser ''0099-12-25'' = ''12/25/99''
   \<and> \<not> is_mmddyyyy (formatDate first_century_parser ''0099-12-25'')"
proof -
  have p: "first_century_parser ''0099-12-25''
     = Some \<lparr>full_year = 99, month0 = 11, day_of_month = 25\<rparr>"
    by (simp add: first_century_parser_def)
  have n: "\<not> is_mmddyyyy ''0099-12-25''" by (simp add: is_mmddyyyy_def is_digit_def)
  have f: "formatDate first_century_parser ''0099-12-25'' = ''12/25/99''"
    using n by (simp add: formatDate_def p show_nat.simps pad2_def show_int_def digit_char_def)
  have s: "\<not> is_mmddyyyy ''12/25/99''" by (simp add: is_mmddyyyy_def)
  show ?thesis using p f s by simp
qed

lemma group_labels [simp]:
  "label_set (text_group l) = Some l"
  "label_set (select_group l opts) = Some l"
  "label_set (radio_group l rname labels) = Some l"
  by (simp_all add: text_group_def select_group_def radio_group_def)

lemma lower_labels:
  "toLowerCase ''Purchaser Name'' = ''purchaser name''"
  "toLowerCase ''Purchaser's NetID'' = ''purchaser's netid''"
  "toLowerCase ''Club/Organization'' = ''club/organization''"
  "toLowerCase ''Payment Method'' = ''payment method''"
  "toLowerCase ''Vendor Name'' = ''vendor name''"
  "toLowerCase ''Date of Expense'' = ''date of expense''"
  "toLowerCase ''Expense Amount'' = ''expense amount''"
  "toLowerCase ''Purchase Type'' = ''purchase type''"
  "toLowerCase ''Include the link to the applicable NYU Engage event''
     = ''include the link to the applicable nyu engage event''"
  "toLowerCase ''In a few sentences, please describe the reason for the purchase''
     = ''in a few sentences, please describe the reason for the purchase''"
  "toLowerCase ''Include the link'' = ''include the link''"
  "toLowerCase ''NYU Engage event'' = ''nyu engage event''"
  "toLowerCase ''In a few sentences'' = ''in a few sentences''"
  "toLowerCase ''describe the reason for the purchase'' = ''describe the reason for the purchase''"
  by (simp_all add: toLowerCase_def)

lemma lower_lower:
  "toLowerCase ''purchaser name'' = ''purchaser name''"
  "toLowerCase ''purchaser's netid'' = ''purchaser's netid''"
  "toLowerCase ''club/organization'' = ''club/organization''"
  "toLowerCase ''payment method'' = ''payment method''"
  "toLowerCase ''vendor name'' = ''vendor name''"
  "toLowerCase ''date of expense'' = ''date of expense''"
  "toLowerCase ''expense amount'' = ''expense amount''"
  "toLowerCase ''purchase type'' = ''purchase type''"
  "toLowerCase ''include the link to the applicable nyu engage event''
     = ''include the link to the applicable nyu engage event''"
  "toLowerCase ''in a few sentences, please describe the reason for the purchase''
     = ''in a few sentences, please describe the reason for the purchase''"
  by (simp_all add: toLowerCase_def)

lemma normal_labels:
  "normalizeText ''Purchaser Name'' = ''purchaser name''"
  "normalizeText ''Purchaser's NetID'' = ''purchaser's netid''"
  "normalizeText ''Club/Organization'' = ''club/organization''"
  "normalizeText ''Payment Method'' = ''payment method''"
  "normalizeText ''Vendor Name'' = ''vendor name''"
  "normalizeText ''Date of Expense'' = ''date of expense''"
  "normalizeText ''Expense Amount'' = ''expense amount''"
  "normalizeText ''Purchase Type'' = ''purchase type''"
  "normalizeText ''Include the link to the applicable NYU Engage event''
     = ''include the link to the applicable nyu engage event''"
  "normalizeText ''In a few sentences, please describe the reason for the purchase''
     = ''in a few sentences, please describe the reason for the purchase''"
  by (simp_all add: normalizeText_def toLowerCase_def trim_def collapse_spaces_def is_space_def)

lemmas label_eval = findFieldByLabel_def empty_form_def label_matches_def regex_test_def
  lower_labels lower_lower normal_labels is_line_terminator_def

lemma find_payment: "findFieldByLabel [''Payment Method''] empty_form = Some 3"
  by (simp add: label_eval split del: if_split)

lemma find_vendor: "findFieldByLabel [''Vendor Name''] empty_form = Some 4"
  by (simp add: label_eval split del: if_split)

lemma find_amount: "findFieldByLabel [''Expense Amount''] empty_form = Some 6"
  by (simp add: label_eval split del: if_split)

lemma find_purchase: "findFieldByLabel [''Purchase Type''] empty_form = Some 7"
  by (simp add: label_eval split del: if_split)

lemma find_link: "findFieldByLabel [''Include the link'', ''NYU Engage event''] empty_form = Some 8"
  by (simp add: label_eval split del: if_split)

lemma find_reason:
  "findFieldByLabel [''In a few sentences'', ''describe the reason for the purchase''] empty_form
     = Some 9"
  by (simp add: label_eval split del: if_split)

text \<open>The locator reads the labels only, and no writer changes a label.\<close>

lemma find_group_labels:
  "map label_set d = map label_set d' \<Longrightarrow> find_group pat d k = find_group pat d' k"
proof (induction d arbitrary: d' k)
  case Nil
  then show ?case by simp
next
  case (Cons g d)
  then obtain g' d'' where d': "d' = g' # d''" by (cases d') auto
  with Cons.prems have "label_set g = label_set g'" "map label_set d = map label_set d''"
    by auto
  with Cons.IH [of d'' "Suc k"] show ?case by (auto simp: d' split: option.splits)
qed

lemma findFieldByLabel_labels:
  "map label_set d = map label_set d' \<Longrightarrow> findFieldByLabel pat d = findFieldByLabel pat d'"
  unfolding findFieldByLabel_def by (rule find_group_labels)

lemma labels_update:
  "i < length d \<Longrightarrow> label_set g = label_set (d ! i) \<Longrightarrow>
     map label_set (d[i := g]) = map label_set d"
  by (simp add: map_update_same)

lemma label_uncheck [simp]: "label_set (uncheck_group n g) = label_set g"
  by (simp add: uncheck_group_def)

lemma text_uncheck [simp]: "text_field (uncheck_group n g) = text_field g"
  by (simp add: uncheck_group_def)

lemma select_uncheck [simp]: "select_field (uncheck_group n g) = select_field g"
  by (simp add: uncheck_group_def)

lemma labels_set_checked [simp]: "map label_set (set_checked i k d) = map label_set d"
proof (rule nth_equalityI)
  show "length (map label_set (set_checked i k d)) = length (map label_set d)" by simp
next
  fix j assume "j < length (map label_set (set_checked i k d))"
  then have j: "j < length d" by simp
  then show "map label_set (set_checked i k d) ! j = map label_set d ! j"
    by (cases "j = i") (simp_all add: set_checked_def Let_def)
qed

lemma text_set_checked [simp]:
  assumes "j < length d"
  shows "text_field (set_checked i k d ! j) = text_field (d ! j)"
proof (cases "j = i")
  case True
  have "i < length d \<Longrightarrow> text_field (set_checked i k d ! i) = text_field (d ! i)"
    by (simp add: set_checked_def Let_def)
  with assms True show ?thesis by blast
next
  case False
  have "j < length d \<Longrightarrow> j \<noteq> i \<Longrightarrow> text_field (set_checked i k d ! j) = text_field (d ! j)"
    by (simp add: set_checked_def Let_def)
  with assms False show ?thesis by blast
qed

lemma set_checked_other:
  "j < length d \<Longrightarrow> j \<noteq> i \<Longrightarrow>
     set_checked i k d ! j = uncheck_group (radio_name (radios (d ! i) ! k)) (d ! j)"
  by (simp add: set_checked_def Let_def)

lemma label_write_text [simp]: "label_set (write_text g v) = label_set g"
  by (simp add: write_text_def)

lemma label_markLow [simp]: "label_set (markLowConfidenceField g t) = label_set g"
  by (simp add: markLowConfidenceField_def)

lemma label_markUnknown [simp]: "label_set (markUnknownField g t) = label_set g"
  by (simp add: markUnknownField_def)

lemma scenario_patterns:
  "radio_patterns PaymentMethod ''out_of_pocket'' = Some [[''out of pocket'']]"
  "radio_patterns PurchaseType ''food'' = Some [[''food'']]"
  by (simp_all add: radio_patterns_def valueMappings_def own_patterns_def)

lemma find_out_of_pocket:
  "find_radio [[''out of pocket'']] (radios (empty_form ! 3)) 0 = Some 2"
  by (simp add: empty_form_def radio_group_def
        regex_test_def toLowerCase_def is_line_terminator_def split del: if_split)

lemma find_food:
  "find_radio [[''food'']] (radios (empty_form ! 7)) 0 = Some 0"
  by (simp add: empty_form_def radio_group_def
        regex_test_def toLowerCase_def is_line_terminator_def split del: if_split)

lemma empty_form_groups:
  "length empty_form = 10"
  "text_field (empty_form ! 4) = Some \<lparr>input_value = [], data_autofilled = False\<rparr>"
  "text_field (empty_form ! 6) = Some \<lparr>input_value = [], data_autofilled = False\<rparr>"
  "text_field (empty_form ! 8) = Some \<lparr>input_value = [], data_autofilled = False\<rparr>"
  "text_field (empty_form ! 9) = Some \<lparr>input_value = [], data_autofilled = False\<rparr>"
  "radios (empty_form ! 3) \<noteq> []"
  "radios (empty_form ! 7) \<noteq> []"
  "radio_name (radios (empty_form ! 3) ! 2) = ''payment''"
  "radio_label (radios (empty_form ! 3) ! 2) = ''Out of pocket''"
  "radio_label (radios (empty_form ! 7) ! 0) = ''Food''"
  "uncheck_group ''payment'' (empty_form ! 7) = empty_form ! 7"
  by (simp_all add: empty_form_def text_group_def radio_group_def uncheck_group_def)

lemma usable_scenario_values:
  "usable_value ''out_of_pocket''" "usable_value ''Acme''" "usable_value ''42.5''"
  "usable_value ''food''"
  by (simp_all add: usable_value_def is_unknown_marker_def string_defs)

lemma trim_scenario_labels: "trim ''Out of pocket'' = ''Out of pocket''" "trim ''Food'' = ''Food''"
  by (simp_all add: trim_def is_space_def)

lemma scenario_run:
  "results (fst (fillExpenseForm parse scenario_record empty_form)) =
     [\<lparr>fieldName = ''Payment Method'', filled = True, confidence = 0.9,
        fill_value = Some ''Out of pocket'', needsReview = False\<rparr>,
      \<lparr>fieldName = ''Vendor Name'', filled = True, confidence = 0.95,
        fill_value = Some ''Acme'', needsReview = False\<rparr>,
      \<lparr>fieldName = ''Expense Amount'', filled = True, confidence = 0.95,
        fill_value = Some ''42.5'', needsReview = False\<rparr>,
      \<lparr>fieldName = ''Purchase Type'', filled = True, confidence = 0.9,
        fill_value = Some ''Food'', needsReview = False\<rparr>,
      \<lparr>fieldName = ''Event Link'', filled = False, confidence = 0,
        fill_value = None, needsReview = True\<rparr>,
      \<lparr>fieldName = ''Description'', filled = True, confidence = 0.7,
        fill_value = Some ''Lunch for club meeting'', needsReview = True\<rparr>]
   \<and> unknown_warning (snd (fillExpenseForm parse scenario_record empty_form) ! 8)
       = Some FillManually
   \<and> text_field (snd (fillExpenseForm parse scenario_record empty_form) ! 8)
       = Some \<lparr>input_value = [], data_autofilled = False\<rparr>"
proof -
  define d1 where "d1 = set_checked 3 2 empty_form"
  define d2 where "d2 = d1[4 := write_text (d1 ! 4) ''Acme'']"
  define d3 where "d3 = d2[6 := write_text (d2 ! 6) ''42.5'']"
  define d4 where "d4 = set_checked 7 0 d3"
  define d5 where "d5 = d4[8 := markUnknownField (d4 ! 8) FillManually]"
  define d6 where "d6 = d5[9 := markLowConfidenceField (write_text (d5 ! 9) ''Lunch for club meeting'')
                              (DescriptionLowConfidence 0.7)]"
  note ef = empty_form_groups
  have len: "length d1 = 10" "length d2 = 10" "length d3 = 10" "length d4 = 10" "length d5 = 10"
    by (simp_all add: d1_def d2_def d3_def d4_def d5_def ef)
  have l1: "map label_set d1 = map label_set empty_form" by (simp add: d1_def)
  have l2: "map label_set d2 = map label_set empty_form"
    unfolding d2_def using l1 len by (simp add: labels_update)
  have l3: "map label_set d3 = map label_set empty_form"
    unfolding d3_def using l2 len by (simp add: labels_update)
  have l4: "map label_set d4 = map label_set empty_form" using l3 by (simp add: d4_def)
  have l5: "map label_set d5 = map label_set empty_form"
    unfolding d5_def using l4 len by (simp add: labels_update)
  have f1: "findFieldByLabel [''Vendor Name''] d1 = Some 4"
    using findFieldByLabel_labels [OF l1] find_vendor by simp
  have f2: "findFieldByLabel [''Expense Amount''] d2 = Some 6"
    using findFieldByLabel_labels [OF l2] find_amount by simp
  have f3: "findFieldByLabel [''Purchase Type''] d3 = Some 7"
    using findFieldByLabel_labels [OF l3] find_purchase by simp
  have f4: "findFieldByLabel [''Include the link'', ''NYU Engage event''] d4 = Some 8"
    using findFieldByLabel_labels [OF l4] find_link by simp
  have f5: "findFieldByLabel [''In a few sentences'', ''describe the reason for the purchase''] d5
      = Some 9"
    using findFieldByLabel_labels [OF l5] find_reason by simp
  have t1: "text_field (d1 ! 4) = Some \<lparr>input_value = [], data_autofilled = False\<rparr>"
    by (simp add: d1_def ef)
  have t2: "text_field (d2 ! 6) = Some \<lparr>input_value = [], data_autofilled = False\<rparr>"
    by (simp add: d2_def d1_def ef)
  have r3: "radios (d3 ! 7) = radios (empty_form ! 7)"
    by (simp add: d3_def d2_def d1_def set_checked_other ef)
  have t4: "text_field (d4 ! 8) = Some \<lparr>input_value = [], data_autofilled = False\<rparr>"
    by (simp add: d4_def d3_def d2_def d1_def len ef)
  have t5: "text_field (d5 ! 9) = Some \<lparr>input_value = [], data_autofilled = False\<rparr>"
    by (simp add: d5_def d4_def d3_def d2_def d1_def len ef)
  have free: "\<not> holds_foreign_value \<lparr>input_value = [], data_autofilled = False\<rparr>"
    by (simp add: holds_foreign_value_def)
  have s1: "fillRadioGroupByPattern [''Payment Method''] PaymentMethod ''out_of_pocket'' c
        empty_form
      = Inr (\<lparr>fieldName = ''Payment Method'', filled = True, confidence = c,
               fill_value = Some ''Out of pocket'', needsReview = False\<rparr>, d1)"
    if "UNKNOWN_THRESHOLD \<le> c" "CONFIDENCE_THRESHOLD \<le> c" for c
    unfolding radio_result [OF find_payment ef(6)]
    using that usable_scenario_values
    by (simp add: isUnknownValue_iff scenario_patterns find_out_of_pocket ef
          trim_scenario_labels d1_def)
  have s2: "fillTextFieldByPattern [''Vendor Name''] ''Vendor Name'' ''Acme'' c False d1
      = (\<lparr>fieldName = ''Vendor Name'', filled = True, confidence = c,
           fill_value = Some ''Acme'', needsReview = False\<rparr>, d2)"
    if "UNKNOWN_THRESHOLD \<le> c" "CONFIDENCE_THRESHOLD \<le> c" for c
    unfolding text_result [OF f1 t1]
    using that usable_scenario_values free by (simp add: isUnknownValue_iff d2_def)
  have s3: "fillTextFieldByPattern [''Expense Amount''] ''Expense Amount'' ''42.5'' c False d2
      = (\<lparr>fieldName = ''Expense Amount'', filled = True, confidence = c,
           fill_value = Some ''42.5'', needsReview = False\<rparr>, d3)"
    if "UNKNOWN_THRESHOLD \<le> c" "CONFIDENCE_THRESHOLD \<le> c" for c
    unfolding text_result [OF f2 t2]
    using that usable_scenario_values free by (simp add: isUnknownValue_iff d3_def)
  have ne3: "radios (d3 ! 7) \<noteq> []" using r3 ef by simp
  have s4: "fillRadioGroupByPattern [''Purchase Type''] PurchaseType ''food'' c d3
      = Inr (\<lparr>fieldName = ''Purchase Type'', filled = True, confidence = c,
               fill_value = Some ''Food'', needsReview = False\<rparr>, d4)"
    if "UNKNOWN_THRESHOLD \<le> c" "CONFIDENCE_THRESHOLD \<le> c" for c
    unfolding radio_result [OF f3 ne3]
    using that usable_scenario_values
    by (simp add: isUnknownValue_iff r3 scenario_patterns find_food ef trim_scenario_labels
          d4_def)
  have s5: "fillTextFieldByPattern [''Include the link'', ''NYU Engage event''] ''Event Link'' []
        c False d4
      = (\<lparr>fieldName = ''Event Link'', filled = False, confidence = 0,
           fill_value = None, needsReview = True\<rparr>, d5)" for c
    unfolding text_result [OF f4 t4]
    by (simp add: isUnknownValue_iff usable_value_def not_filled_def d5_def)
  have s6: "fillTextFieldByPattern
        [''In a few sentences'', ''describe the reason for the purchase''] ''Description''
        ''Lunch for club meeting'' c True d5
      = (\<lparr>fieldName = ''Description'', filled = True, confidence = c,
           fill_value = Some ''Lunch for club meeting'', needsReview = True\<rparr>,
         d5[9 := markLowConfidenceField (write_text (d5 ! 9) ''Lunch for club meeting'')
                   (DescriptionLowConfidence c)])"
    if "c < CONFIDENCE_THRESHOLD" for c
    unfolding text_result [OF f5 t5]
    using that usable_lunch free by simp
  have run: "run_fields (fieldMappings parse scenario_record) [] empty_form =
     ([\<lparr>fieldName = ''Payment Method'', filled = True, confidence = 0.9,
        fill_value = Some ''Out of pocket'', needsReview = False\<rparr>,
      \<lparr>fieldName = ''Vendor Name'', filled = True, confidence = 0.95,
        fill_value = Some ''Acme'', needsReview = False\<rparr>,
      \<lparr>fieldName = ''Expense Amount'', filled = True, confidence = 0.95,
        fill_value = Some ''42.5'', needsReview = False\<rparr>,
      \<lparr>fieldName = ''Purchase Type'', filled = True, confidence = 0.9,
        fill_value = Some ''Food'', needsReview = False\<rparr>,
      \<lparr>fieldName = ''Event Link'', filled = False, confidence = 0,
        fill_value = None, needsReview = True\<rparr>,
      \<lparr>fieldName = ''Description'', filled = True, confidence = 0.7,
        fill_value = Some ''Lunch for club meeting'', needsReview = True\<rparr>], d6)"
    by (simp add: fieldMappings_def scenario_record_def call_writer_def s1 s2 s3 s4 s5 s6
          UNKNOWN_THRESHOLD_def CONFIDENCE_THRESHOLD_def d6_def)
  have u: "unknown_warning (d6 ! 8) = Some FillManually"
    by (simp add: d6_def d5_def len markUnknownField_def)
  have t: "text_field (d6 ! 8) = Some \<lparr>input_value = [], data_autofilled = False\<rparr>"
    using t4 by (simp add: d6_def d5_def len markUnknownField_def)
  show ?thesis
    unfolding fillExpenseForm_results fillExpenseForm_document run using u t by simp
qed

lemma fillExpenseForm_counts:
  "filledFields (fst (fillExpenseForm parse data doc))
     = length (filter filled (results (fst (fillExpenseForm parse data doc))))"
  "lowConfidenceFields (fst (fillExpenseForm parse data doc))
     = length (filter needsReview (results (fst (fillExpenseForm parse data doc))))"
  by (cases "run_fields (fieldMappings parse data) [] doc"; simp add: fillExpenseForm_def)+

text \<open>
  Claim C4, as the code has it. The record of the scenario, applied to the empty form, gives
  a summary with ten table entries and exactly five filled fields: payment method, vendor,
  amount, purchase type and description. The description is the only filled field that
  needs review. The event link is not filled, its input stays empty and its group carries
  the unknown annotation; its result has \<open>needsReview = true\<close> as well, so two results
  need review and \<open>lowConfidenceFields\<close> is 2.
\<close>

theorem C4_scenario_summary:
  "totalFields (fst (fillExpenseForm parse scenario_record empty_form)) = 10
   \<and> filledFields (fst (fillExpenseForm parse scenario_record empty_form)) = 5
   \<and> map fieldName (filter filled (results (fst (fillExpenseForm parse scenario_record empty_form))))
       = [''Payment Method'', ''Vendor Name'', ''Expense Amount'', ''Purchase Type'', ''Description'']
   \<and> map fieldName (filter (\<lambda>r. filled r \<and> needsReview r)
         (results (fst (fillExpenseForm parse scenario_record empty_form))))
       = [''Description'']
   \<and> map fieldName (filter needsReview
         (results (fst (fillExpenseForm parse scenario_record empty_form))))
       = [''Event Link'', ''Description'']
   \<and> lowConfidenceFields (fst (fillExpenseForm parse scenario_record empty_form)) = 2
   \<and> unknown_warning (snd (fillExpenseForm parse scenario_record empty_form) ! 8)
       = Some FillManually
   \<and> text_field (snd (fillExpenseForm parse scenario_record empty_form) ! 8)
       = Some \<lparr>input_value = [], data_autofilled = False\<rparr>"
  using scenario_run [of parse]
  by (simp add: fillExpenseForm_counts fillExpenseForm_total)

text \<open>
  Claim C4 as stated fails on its last part: the result of the event link, the fifth of the
  summary, has \<open>needsReview = true\<close>, so the description is not the only field that needs
  review.
\<close>

theorem C4_event_link_needs_review_counterexample:
  "fieldName (results (fst (fillExpenseForm no_date scenario_record empty_form)) ! 4)
     = ''Event Link''
   \<and> \<not> filled (results (fst (fillExpenseForm no_date scenario_record empty_form)) ! 4)
   \<and> needsReview (results (fst (fillExpenseForm no_date scenario_record empty_form)) ! 4)
   \<and> lowConfidenceFields (fst (fillExpenseForm no_date scenario_record empty_form)) = 2"
  using scenario_run [of no_date]
  by (simp add: fillExpenseForm_counts)

section \<open>A second fill pass\<close>

lemma later_simps [simp]:
  "later None p = p" "later (Some x) p = Some x" "later q None = q" "later q q = q"
  "later q (later q p) = later q p"
  by (simp_all add: later_def split: option.splits)

lemma later_assoc: "later r (later q p) = later (later r q) p"
  by (simp add: later_def split: option.splits)

lemma apply_radio_twice: "apply_radio c (apply_radio b r) = apply_radio (later c b) r"
  by (simp add: apply_radio_def split: option.splits)

lemma length_radios_apply [simp]: "length (radios (apply_group p g)) = length (radios g)"
  by (simp add: apply_group_def)

lemma nth_radios_apply:
  "m < length (radios g) \<Longrightarrow> radios (apply_group p g) ! m = apply_radio (w_radio p m) (radios g ! m)"
  by (simp add: apply_group_def)

lemma apply_group_fields [simp]:
  "label_set (apply_group p g) = label_set g"
  "outline_style (apply_group p g) = later (w_outline p) (outline_style g)"
  "low_warning (apply_group p g) = later (w_low p) (low_warning g)"
  "unknown_warning (apply_group p g) = later (w_unknown p) (unknown_warning g)"
  "text_field (apply_group p g) =
     (case w_text p of None \<Rightarrow> text_field g
      | Some v \<Rightarrow> map_option (\<lambda>inp. \<lparr>input_value = v, data_autofilled = True\<rparr>) (text_field g))"
  "select_field (apply_group p g) =
     (case w_select p of None \<Rightarrow> select_field g
      | Some x \<Rightarrow> map_option (\<lambda>sel. sel\<lparr>select_value := x\<rparr>) (select_field g))"
  by (simp_all add: apply_group_def)

lemma form_group_eqI:
  fixes g h :: form_group
  assumes "label_set g = label_set h" "text_field g = text_field h"
    "select_field g = select_field h" "radios g = radios h" "outline_style g = outline_style h"
    "low_warning g = low_warning h" "unknown_warning g = unknown_warning h"
  shows "g = h"
  using assms by (cases g, cases h) simp

lemma apply_group_twice: "apply_group q (apply_group p g) = apply_group (then_write q p) g"
proof (rule form_group_eqI)
  show "radios (apply_group q (apply_group p g)) = radios (apply_group (then_write q p) g)"
    by (rule nth_equalityI)
       (simp_all add: nth_radios_apply apply_radio_twice then_write_def)
  show "text_field (apply_group q (apply_group p g)) = text_field (apply_group (then_write q p) g)"
    by (cases "text_field g") (simp_all add: then_write_def split: option.splits)
  show "select_field (apply_group q (apply_group p g))
      = select_field (apply_group (then_write q p) g)"
    by (cases "select_field g") (simp_all add: then_write_def split: option.splits)
qed (simp_all add: then_write_def later_assoc)

lemma then_write_same [simp]: "then_write p p = p"
  by (simp add: then_write_def)

lemma length_apply_doc [simp]: "length (apply_doc P d) = length d"
  by (simp add: apply_doc_def)

lemma nth_apply_doc: "j < length d \<Longrightarrow> apply_doc P d ! j = apply_group (P j) (d ! j)"
  by (simp add: apply_doc_def)

lemma apply_doc_twice: "apply_doc Q (apply_doc P d) = apply_doc (\<lambda>j. then_write (Q j) (P j)) d"
  by (rule nth_equalityI) (simp_all add: nth_apply_doc apply_group_twice)

lemma apply_doc_idem: "apply_doc P (apply_doc P d) = apply_doc P d"
  by (simp add: apply_doc_twice)

lemma apply_no_write [simp]: "apply_group no_write g = g"
proof (rule form_group_eqI)
  show "radios (apply_group no_write g) = radios g"
    by (rule nth_equalityI) (simp_all add: nth_radios_apply no_write_def apply_radio_def)
qed (simp_all add: no_write_def)

lemma apply_doc_none [simp]: "apply_doc (\<lambda>j. no_write) d = d"
  by (rule nth_equalityI) (simp_all add: nth_apply_doc)

lemma apply_doc_at:
  "apply_doc (at_group i p) d = (if i < length d then d[i := apply_group p (d ! i)] else d)"
  by (rule nth_equalityI) (auto simp: nth_apply_doc at_group_def nth_list_update)

lemma doc_shape_length: "doc_shape d = doc_shape d' \<Longrightarrow> length d = length d'"
  unfolding doc_shape_def by (rule map_eq_imp_length_eq)

lemma doc_shape_nth:
  "doc_shape d = doc_shape d' \<Longrightarrow> j < length d \<Longrightarrow> group_shape (d ! j) = group_shape (d' ! j)"
  using doc_shape_length [of d d'] nth_map [of j d group_shape] nth_map [of j d' group_shape]
  by (simp add: doc_shape_def)

lemma doc_shape_labels: "doc_shape d = doc_shape d' \<Longrightarrow> map label_set d = map label_set d'"
proof -
  assume "doc_shape d = doc_shape d'"
  then have "map fst (doc_shape d) = map fst (doc_shape d')" by simp
  then show ?thesis by (simp add: doc_shape_def group_shape_def comp_def)
qed

lemma doc_shape_find:
  "doc_shape d = doc_shape d' \<Longrightarrow> findFieldByLabel pat d = findFieldByLabel pat d'"
  by (rule findFieldByLabel_labels) (rule doc_shape_labels)

lemma doc_shapeI:
  assumes "length d = length d'" and "\<And>j. j < length d \<Longrightarrow> group_shape (d ! j) = group_shape (d' ! j)"
  shows "doc_shape d = doc_shape d'"
  unfolding doc_shape_def using assms by (intro nth_equalityI) simp_all

lemma group_shape_apply:
  assumes "w_text p = None \<or> (\<forall>inp. text_field g = Some inp \<longrightarrow> \<not> holds_foreign_value inp)"
  shows "group_shape (apply_group p g) = group_shape g"
proof -
  have r: "map (\<lambda>r. (radio_name r, radio_label r)) (radios (apply_group p g))
      = map (\<lambda>r. (radio_name r, radio_label r)) (radios g)"
    by (rule nth_equalityI)
       (simp_all add: nth_radios_apply apply_radio_def split: option.splits)
  have t: "map_option holds_foreign_value (text_field (apply_group p g))
      = map_option holds_foreign_value (text_field g)"
    using assms
    by (cases "text_field g") (auto simp: holds_foreign_value_def split: option.splits)
  have s: "map_option select_options (select_field (apply_group p g))
      = map_option select_options (select_field g)"
    by (cases "select_field g") (simp_all split: option.splits)
  show ?thesis by (simp add: group_shape_def r t s del: apply_group_fields(5,6))
qed

lemma doc_shape_apply: "safe_write P d \<Longrightarrow> doc_shape (apply_doc P d) = doc_shape d"
  by (rule doc_shapeI) (simp_all add: nth_apply_doc group_shape_apply safe_write_def)

lemma safe_write_shape:
  assumes "doc_shape d = doc_shape d'" and "safe_write P d"
  shows "safe_write P d'"
proof -
  have len: "length d = length d'" using assms(1) by (rule doc_shape_length)
  have "w_text (P j) = None \<or> (\<forall>inp. text_field (d' ! j) = Some inp \<longrightarrow> \<not> holds_foreign_value inp)"
    if j: "j < length d'" for j
  proof -
    have "map_option holds_foreign_value (text_field (d ! j))
        = map_option holds_foreign_value (text_field (d' ! j))"
      using doc_shape_nth [OF assms(1), of j] j len by (simp add: group_shape_def)
    moreover have "w_text (P j) = None
        \<or> (\<forall>inp. text_field (d ! j) = Some inp \<longrightarrow> \<not> holds_foreign_value inp)"
      using assms(2) j len by (simp add: safe_write_def)
    ultimately show ?thesis by (cases "text_field (d ! j)"; cases "text_field (d' ! j)") auto
  qed
  then show ?thesis by (simp add: safe_write_def)
qed

lemma safe_none [simp]: "safe_write (\<lambda>j. no_write) d"
  by (simp add: safe_write_def no_write_def)

lemma safe_at:
  "w_text p = None \<or> (\<forall>inp. text_field (d ! i) = Some inp \<longrightarrow> \<not> holds_foreign_value inp)
     \<Longrightarrow> safe_write (at_group i p) d"
  by (auto simp: safe_write_def at_group_def no_write_def)

text \<open>The writes of the annotator and of the writers, as assignments.\<close>

lemma radios_apply_keep: "w_radio p = (\<lambda>m. None) \<Longrightarrow> radios (apply_group p g) = radios g"
  by (rule nth_equalityI) (simp_all add: nth_radios_apply apply_radio_def)

lemma write_text_as_write:
  "text_field g = Some inp \<Longrightarrow> write_text g v = apply_group (no_write\<lparr>w_text := Some v\<rparr>) g"
  by (rule form_group_eqI) (simp_all add: write_text_def no_write_def radios_apply_keep)

lemma markLow_as_write:
  "markLowConfidenceField g t
     = apply_group (no_write\<lparr>w_outline := Some LowConfidenceOutline, w_low := Some t\<rparr>) g"
  by (rule form_group_eqI) (simp_all add: markLowConfidenceField_def no_write_def radios_apply_keep)

lemma markUnknown_as_write:
  "markUnknownField g t
     = apply_group (no_write\<lparr>w_outline := Some UnknownOutline, w_unknown := Some t\<rparr>) g"
  by (rule form_group_eqI) (simp_all add: markUnknownField_def no_write_def radios_apply_keep)

lemma select_as_write:
  "select_field g = Some sel \<Longrightarrow>
     g\<lparr>select_field := Some (sel\<lparr>select_value := x\<rparr>)\<rparr>
       = apply_group (no_write\<lparr>w_select := Some x\<rparr>) g"
  by (rule form_group_eqI) (simp_all add: no_write_def radios_apply_keep)

lemma group_shape_radios:
  assumes "group_shape g = group_shape g'"
  shows "length (radios g) = length (radios g')"
    and "m < length (radios g) \<Longrightarrow> radio_name (radios g ! m) = radio_name (radios g' ! m)"
    and "map radio_label (radios g) = map radio_label (radios g')"
proof -
  from assms have e: "map (\<lambda>r. (radio_name r, radio_label r)) (radios g)
      = map (\<lambda>r. (radio_name r, radio_label r)) (radios g')"
    by (simp add: group_shape_def)
  then show l: "length (radios g) = length (radios g')" by (rule map_eq_imp_length_eq)
  from e have "map fst (map (\<lambda>r. (radio_name r, radio_label r)) (radios g))
      = map fst (map (\<lambda>r. (radio_name r, radio_label r)) (radios g'))" by simp
  then have n: "map radio_name (radios g) = map radio_name (radios g')" by (simp add: comp_def)
  show "radio_name (radios g ! m) = radio_name (radios g' ! m)" if "m < length (radios g)"
    using that l nth_map [of m "radios g" radio_name] nth_map [of m "radios g'" radio_name] n
    by simp
  from e have "map snd (map (\<lambda>r. (radio_name r, radio_label r)) (radios g))
      = map snd (map (\<lambda>r. (radio_name r, radio_label r)) (radios g'))" by simp
  then show "map radio_label (radios g) = map radio_label (radios g')" by (simp add: comp_def)
qed

lemma length_radios_set_checked:
  "j < length d \<Longrightarrow> length (radios (set_checked i k d ! j)) = length (radios (d ! j))"
proof (cases "j = i")
  case True
  assume "j < length d"
  with True have "i < length d" by simp
  then have "length (radios (set_checked i k d ! i)) = length (radios (d ! i))"
    by (simp add: set_checked_def Let_def uncheck_group_def)
  with True show ?thesis by simp
next
  case False
  assume "j < length d"
  with False show ?thesis by (simp add: set_checked_other uncheck_group_def)
qed

lemma radios_set_checked_same:
  assumes "i < length d" "k < length (radios (d ! i))" "m < length (radios (d ! i))"
  shows "radios (set_checked i k d ! i) ! m =
     (if m = k then (radios (d ! i) ! k)\<lparr>radio_checked := True\<rparr>
      else if radio_name (radios (d ! i) ! k) \<noteq> []
              \<and> radio_name (radios (d ! i) ! m) = radio_name (radios (d ! i) ! k)
      then (radios (d ! i) ! m)\<lparr>radio_checked := False\<rparr>
      else radios (d ! i) ! m)"
  using assms by (simp add: set_checked_def Let_def uncheck_group_def nth_list_update)

lemma radios_set_checked_other:
  assumes "j < length d" "j \<noteq> i" "m < length (radios (d ! j))"
  shows "radios (set_checked i k d ! j) ! m =
     (if radio_name (radios (d ! i) ! k) \<noteq> []
         \<and> radio_name (radios (d ! j) ! m) = radio_name (radios (d ! i) ! k)
      then (radios (d ! j) ! m)\<lparr>radio_checked := False\<rparr>
      else radios (d ! j) ! m)"
  using assms by (simp add: set_checked_other uncheck_group_def)

lemma set_checked_fields:
  assumes "j < length d"
  shows "label_set (set_checked i k d ! j) = label_set (d ! j)"
    and "select_field (set_checked i k d ! j) = select_field (d ! j)"
    and "outline_style (set_checked i k d ! j) = outline_style (d ! j)"
    and "low_warning (set_checked i k d ! j) = low_warning (d ! j)"
    and "unknown_warning (set_checked i k d ! j) = unknown_warning (d ! j)"
proof -
  have a: "i < length d \<Longrightarrow> label_set (set_checked i k d ! i) = label_set (d ! i)
      \<and> select_field (set_checked i k d ! i) = select_field (d ! i)
      \<and> outline_style (set_checked i k d ! i) = outline_style (d ! i)
      \<and> low_warning (set_checked i k d ! i) = low_warning (d ! i)
      \<and> unknown_warning (set_checked i k d ! i) = unknown_warning (d ! i)"
    by (simp add: set_checked_def Let_def uncheck_group_def)
  have b: "j \<noteq> i \<Longrightarrow> label_set (set_checked i k d ! j) = label_set (d ! j)
      \<and> select_field (set_checked i k d ! j) = select_field (d ! j)
      \<and> outline_style (set_checked i k d ! j) = outline_style (d ! j)
      \<and> low_warning (set_checked i k d ! j) = low_warning (d ! j)
      \<and> unknown_warning (set_checked i k d ! j) = unknown_warning (d ! j)"
    using assms by (simp add: set_checked_other uncheck_group_def)
  show "label_set (set_checked i k d ! j) = label_set (d ! j)"
    and "select_field (set_checked i k d ! j) = select_field (d ! j)"
    and "outline_style (set_checked i k d ! j) = outline_style (d ! j)"
    and "low_warning (set_checked i k d ! j) = low_warning (d ! j)"
    and "unknown_warning (set_checked i k d ! j) = unknown_warning (d ! j)"
    using a b assms by blast+
qed

lemma set_checked_as_write:
  assumes sh: "doc_shape d = doc_shape d'" and i: "i < length d" and k: "k < length (radios (d ! i))"
  shows "set_checked i k d' = apply_doc (check_write d i k) d'"
proof (rule nth_equalityI)
  show "length (set_checked i k d') = length (apply_doc (check_write d i k) d')" by simp
next
  fix j assume "j < length (set_checked i k d')"
  then have j': "j < length d'" by simp
  have len: "length d = length d'" using sh by (rule doc_shape_length)
  have j: "j < length d" using j' len by simp
  have i': "i < length d'" using i len by simp
  note gi = group_shape_radios [OF doc_shape_nth [OF sh i]]
  note gj = group_shape_radios [OF doc_shape_nth [OF sh j]]
  have k': "k < length (radios (d' ! i))" using k gi(1) by simp
  have name: "radio_name (radios (d' ! i) ! k) = radio_name (radios (d ! i) ! k)"
    using gi(2) [OF k] by simp
  have w: "w_text (check_write d i k j) = None" "w_select (check_write d i k j) = None"
    "w_outline (check_write d i k j) = None" "w_low (check_write d i k j) = None"
    "w_unknown (check_write d i k j) = None"
    by (simp_all add: check_write_def no_write_def)
  show "set_checked i k d' ! j = apply_doc (check_write d i k) d' ! j"
  proof (rule form_group_eqI)
    show "radios (set_checked i k d' ! j) = radios (apply_doc (check_write d i k) d' ! j)"
    proof (rule nth_equalityI)
      show "length (radios (set_checked i k d' ! j))
          = length (radios (apply_doc (check_write d i k) d' ! j))"
        using j' by (simp add: length_radios_set_checked nth_apply_doc)
    next
      fix m assume "m < length (radios (set_checked i k d' ! j))"
      then have m': "m < length (radios (d' ! j))"
        using j' by (simp add: length_radios_set_checked)
      then have m: "m < length (radios (d ! j))" using gj(1) by simp
      have nm: "radio_name (radios (d' ! j) ! m) = radio_name (radios (d ! j) ! m)"
        using gj(2) [OF m] by simp
      have rhs: "radios (apply_doc (check_write d i k) d' ! j) ! m
          = apply_radio (w_radio (check_write d i k j) m) (radios (d' ! j) ! m)"
        using j' m' by (simp add: nth_apply_doc nth_radios_apply)
      show "radios (set_checked i k d' ! j) ! m
          = radios (apply_doc (check_write d i k) d' ! j) ! m"
      proof (cases "j = i")
        case True
        have "radios (set_checked i k d' ! i) ! m =
           (if m = k then (radios (d' ! i) ! k)\<lparr>radio_checked := True\<rparr>
            else if radio_name (radios (d ! i) ! k) \<noteq> []
                    \<and> radio_name (radios (d ! i) ! m) = radio_name (radios (d ! i) ! k)
            then (radios (d' ! i) ! m)\<lparr>radio_checked := False\<rparr>
            else radios (d' ! i) ! m)"
          using radios_set_checked_same [OF i' k', of m] m' nm True name by simp
        then show ?thesis
          unfolding rhs using True
          by (simp add: check_write_def no_write_def apply_radio_def)
      next
        case False
        have "radios (set_checked i k d' ! j) ! m =
           (if radio_name (radios (d ! i) ! k) \<noteq> []
               \<and> radio_name (radios (d ! j) ! m) = radio_name (radios (d ! i) ! k)
            then (radios (d' ! j) ! m)\<lparr>radio_checked := False\<rparr>
            else radios (d' ! j) ! m)"
          using radios_set_checked_other [OF j' False m', of k] nm name by simp
        then show ?thesis
          unfolding rhs using False
          by (simp add: check_write_def no_write_def apply_radio_def)
      qed
    qed
  next
    show "text_field (set_checked i k d' ! j) = text_field (apply_doc (check_write d i k) d' ! j)"
      using j' w by (simp add: nth_apply_doc)
  qed (use j' w in \<open>simp_all add: nth_apply_doc set_checked_fields\<close>)
qed

lemma safe_check [simp]: "safe_write (check_write d i k) d'"
  by (simp add: safe_write_def check_write_def no_write_def)

lemma no_text_writes [simp]:
  "w_text (low_write t) = None" "w_text (unknown_write t) = None"
  "w_text (select_write x review t) = None" "w_text no_write = None"
  by (simp_all add: low_write_def unknown_write_def select_write_def then_write_def no_write_def)

lemma text_group_as_write:
  assumes "text_field g = Some inp"
  shows "(if review then markLowConfidenceField (write_text g v) t else write_text g v)
     = apply_group (text_write v review t) g"
  unfolding text_write_def low_write_def
  using write_text_as_write [OF assms, of v]
    markLow_as_write [of "apply_group (no_write\<lparr>w_text := Some v\<rparr>) g" t]
  by (simp add: apply_group_twice)

lemma select_group_as_write:
  assumes "select_field g = Some sel"
  shows "(if review
          then markLowConfidenceField (g\<lparr>select_field := Some (sel\<lparr>select_value := x\<rparr>)\<rparr>) t
          else g\<lparr>select_field := Some (sel\<lparr>select_value := x\<rparr>)\<rparr>)
     = apply_group (select_write x review t) g"
  unfolding select_write_def low_write_def
  using select_as_write [OF assms, of x]
    markLow_as_write [of "apply_group (no_write\<lparr>w_select := Some x\<rparr>) g" t]
  by (simp add: apply_group_twice)

lemma unknown_group_as_write: "markUnknownField g t = apply_group (unknown_write t) g"
  unfolding unknown_write_def by (rule markUnknown_as_write)

lemma update_as_write:
  "i < length d \<Longrightarrow> d[i := apply_group p (d ! i)] = apply_doc (at_group i p) d"
  by (simp add: apply_doc_at)

text \<open>
  Each writer is regular: on two documents of the same shape it returns the same result and
  makes the same safe write.
\<close>

lemma text_regular:
  assumes sh: "doc_shape d = doc_shape d'"
  shows "fst (fillTextFieldByPattern pat name v conf always d)
       = fst (fillTextFieldByPattern pat name v conf always d')
     \<and> (\<exists>P. safe_write P d
           \<and> snd (fillTextFieldByPattern pat name v conf always d) = apply_doc P d
           \<and> snd (fillTextFieldByPattern pat name v conf always d') = apply_doc P d')"
proof (cases "findFieldByLabel pat d")
  case None
  then have "findFieldByLabel pat d' = None" using doc_shape_find [OF sh, of pat] by simp
  with None have "fillTextFieldByPattern pat name v conf always d = (not_filled name False, d)"
    "fillTextFieldByPattern pat name v conf always d' = (not_filled name False, d')"
    by (simp_all add: fillTextFieldByPattern_def)
  then show ?thesis by (intro conjI exI [of _ "\<lambda>j. no_write"]) simp_all
next
  case (Some i)
  then have f': "findFieldByLabel pat d' = Some i" using doc_shape_find [OF sh, of pat] by simp
  have i: "i < length d" using Some by (rule findFieldByLabel_bound)
  have i': "i < length d'" using f' by (rule findFieldByLabel_bound)
  have gs: "map_option holds_foreign_value (text_field (d ! i))
      = map_option holds_foreign_value (text_field (d' ! i))"
    using doc_shape_nth [OF sh i] by (simp add: group_shape_def)
  show ?thesis
  proof (cases "text_field (d ! i)")
    case None
    then have "text_field (d' ! i) = None" using gs by simp
    with None Some f' have "fillTextFieldByPattern pat name v conf always d = (not_filled name False, d)"
      "fillTextFieldByPattern pat name v conf always d' = (not_filled name False, d')"
      by (simp_all add: fillTextFieldByPattern_def)
    then show ?thesis by (intro conjI exI [of _ "\<lambda>j. no_write"]) simp_all
  next
    case (Some inp)
    then obtain inp' where t': "text_field (d' ! i) = Some inp'"
      and h: "holds_foreign_value inp' = holds_foreign_value inp"
      using gs by (cases "text_field (d' ! i)") auto
    note r0 = text_result [OF \<open>findFieldByLabel pat d = Some i\<close> Some, of name v conf always]
    note r0' = text_result [OF f' t', of name v conf always]
    show ?thesis
    proof (cases "(always \<and> usable_value v) \<or> \<not> isUnknownValue v conf")
      case writes: True
      note r = r0 [unfolded if_P [OF writes]]
      note r' = r0' [unfolded if_P [OF writes]]
      show ?thesis
      proof (cases "holds_foreign_value inp")
        case True
        with h r r' have "fillTextFieldByPattern pat name v conf always d = (not_filled name False, d)"
          "fillTextFieldByPattern pat name v conf always d' = (not_filled name False, d')"
          by simp_all
        then show ?thesis by (intro conjI exI [of _ "\<lambda>j. no_write"]) simp_all
      next
        case False
        let ?t = "if always \<and> usable_value v then DescriptionLowConfidence conf else LowConfidence conf"
        let ?p = "text_write v (conf < CONFIDENCE_THRESHOLD) ?t"
        have a: "snd (fillTextFieldByPattern pat name v conf always d) = apply_doc (at_group i ?p) d"
          using False r text_group_as_write [OF Some, of "conf < CONFIDENCE_THRESHOLD" v ?t]
            update_as_write [OF i, of ?p]
          by simp
        have b: "snd (fillTextFieldByPattern pat name v conf always d') = apply_doc (at_group i ?p) d'"
          using False h r' text_group_as_write [OF t', of "conf < CONFIDENCE_THRESHOLD" v ?t]
            update_as_write [OF i', of ?p]
          by simp
        have c: "fst (fillTextFieldByPattern pat name v conf always d)
            = fst (fillTextFieldByPattern pat name v conf always d')"
          using False h r r' by simp
        have s: "safe_write (at_group i ?p) d"
          using Some False by (intro safe_at) simp
        show ?thesis using a b c s by blast
      qed
    next
      case False
      note r = r0 [unfolded if_not_P [OF False]]
      note r' = r0' [unfolded if_not_P [OF False]]
      let ?p = "unknown_write FillManually"
      have a: "snd (fillTextFieldByPattern pat name v conf always d) = apply_doc (at_group i ?p) d"
        using r update_as_write [OF i, of ?p] by (simp add: unknown_group_as_write)
      have b: "snd (fillTextFieldByPattern pat name v conf always d') = apply_doc (at_group i ?p) d'"
        using r' update_as_write [OF i', of ?p] by (simp add: unknown_group_as_write)
      have c: "fst (fillTextFieldByPattern pat name v conf always d)
          = fst (fillTextFieldByPattern pat name v conf always d')"
        using r r' by simp
      have s: "safe_write (at_group i ?p) d" by (intro safe_at) simp
      show ?thesis using a b c s by blast
    qed
  qed
qed

lemma dropdown_regular:
  assumes sh: "doc_shape d = doc_shape d'"
  shows "fst (fillDropdownByPattern pat name v conf d) = fst (fillDropdownByPattern pat name v conf d')
     \<and> (\<exists>P. safe_write P d
           \<and> snd (fillDropdownByPattern pat name v conf d) = apply_doc P d
           \<and> snd (fillDropdownByPattern pat name v conf d') = apply_doc P d')"
proof (cases "findFieldByLabel pat d")
  case None
  then have "findFieldByLabel pat d' = None" using doc_shape_find [OF sh, of pat] by simp
  with None have "fillDropdownByPattern pat name v conf d = (not_filled name False, d)"
    "fillDropdownByPattern pat name v conf d' = (not_filled name False, d')"
    by (simp_all add: fillDropdownByPattern_def)
  then show ?thesis by (intro conjI exI [of _ "\<lambda>j. no_write"]) simp_all
next
  case (Some i)
  then have f': "findFieldByLabel pat d' = Some i" using doc_shape_find [OF sh, of pat] by simp
  have i: "i < length d" using Some by (rule findFieldByLabel_bound)
  have i': "i < length d'" using f' by (rule findFieldByLabel_bound)
  have gs: "map_option select_options (select_field (d ! i))
      = map_option select_options (select_field (d' ! i))"
    using doc_shape_nth [OF sh i] by (simp add: group_shape_def)
  show ?thesis
  proof (cases "select_field (d ! i)")
    case None
    then have "select_field (d' ! i) = None" using gs by simp
    with None Some f' have "fillDropdownByPattern pat name v conf d = (not_filled name False, d)"
      "fillDropdownByPattern pat name v conf d' = (not_filled name False, d')"
      by (simp_all add: fillDropdownByPattern_def)
    then show ?thesis by (intro conjI exI [of _ "\<lambda>j. no_write"]) simp_all
  next
    case (Some sel)
    then obtain sel' where s': "select_field (d' ! i) = Some sel'"
      and o: "select_options sel' = select_options sel"
      using gs by (cases "select_field (d' ! i)") auto
    note r0 = dropdown_result [OF \<open>findFieldByLabel pat d = Some i\<close> Some, of name v conf]
    note r0' = dropdown_result [OF f' s', of name v conf, unfolded o]
    have annotated: ?thesis
      if "fillDropdownByPattern pat name v conf d
            = (not_filled name True, d[i := markUnknownField (d ! i) t])"
        and "fillDropdownByPattern pat name v conf d'
            = (not_filled name True, d'[i := markUnknownField (d' ! i) t])" for t
    proof -
      let ?p = "unknown_write t"
      have "snd (fillDropdownByPattern pat name v conf d) = apply_doc (at_group i ?p) d"
        using that(1) update_as_write [OF i, of ?p] by (simp add: unknown_group_as_write)
      moreover have "snd (fillDropdownByPattern pat name v conf d') = apply_doc (at_group i ?p) d'"
        using that(2) update_as_write [OF i', of ?p] by (simp add: unknown_group_as_write)
      moreover have "safe_write (at_group i ?p) d" by (intro safe_at) simp
      ultimately show ?thesis using that by auto
    qed
    show ?thesis
    proof (cases "isUnknownValue v conf")
      case True
      show ?thesis
        by (rule annotated [of SelectManually])
           (simp_all add: r0 r0' True)
    next
      case False
      note r = r0 [unfolded if_not_P [OF False]]
      note r' = r0' [unfolded if_not_P [OF False]]
      show ?thesis
      proof (cases "find (option_matches v) (select_options sel)")
        case None
        show ?thesis
          by (rule annotated [of "NoMatchingOption v"]) (simp_all add: r r' None)
      next
        case (Some opt)
        show ?thesis
        proof (cases "option_value opt = ''-1''")
          case True
          show ?thesis
            by (rule annotated [of "NoMatchingOption v"]) (simp_all add: r r' Some True)
        next
          case False
          let ?p = "select_write (option_value opt) (conf < CONFIDENCE_THRESHOLD) (LowConfidence conf)"
          have a: "snd (fillDropdownByPattern pat name v conf d) = apply_doc (at_group i ?p) d"
            using r update_as_write [OF i, of ?p]
              select_group_as_write [OF \<open>select_field (d ! i) = Some sel\<close>,
                of "conf < CONFIDENCE_THRESHOLD" "option_value opt" "LowConfidence conf"]
            by (simp add: Some False)
          have b: "snd (fillDropdownByPattern pat name v conf d') = apply_doc (at_group i ?p) d'"
            using r' update_as_write [OF i', of ?p]
              select_group_as_write [OF s',
                of "conf < CONFIDENCE_THRESHOLD" "option_value opt" "LowConfidence conf"]
            by (simp add: Some False)
          have c: "fst (fillDropdownByPattern pat name v conf d)
              = fst (fillDropdownByPattern pat name v conf d')"
            using r r' by (simp add: Some False)
          have s: "safe_write (at_group i ?p) d" by (intro safe_at) simp
          show ?thesis using a b c s by blast
        qed
      qed
    qed
  qed
qed

lemma find_radio_labels:
  "map radio_label rs = map radio_label rs' \<Longrightarrow> find_radio pats rs k = find_radio pats rs' k"
proof (induction rs arbitrary: rs' k)
  case Nil
  then show ?case by simp
next
  case (Cons r rs)
  then obtain r' rs'' where rs': "rs' = r' # rs''" by (cases rs') auto
  with Cons.prems have "radio_label r = radio_label r'" "map radio_label rs = map radio_label rs''"
    by auto
  with Cons.IH [of rs'' "Suc k"] show ?case by (simp add: rs')
qed

lemma safe_no_text: "(\<And>j. w_text (P j) = None) \<Longrightarrow> safe_write P d"
  by (simp add: safe_write_def)

lemma radio_regular:
  assumes sh: "doc_shape d = doc_shape d'"
  shows "(fillRadioGroupByPattern pat field v conf d = Inl TypeError
          \<and> fillRadioGroupByPattern pat field v conf d' = Inl TypeError)
     \<or> (\<exists>r P. safe_write P d
           \<and> fillRadioGroupByPattern pat field v conf d = Inr (r, apply_doc P d)
           \<and> fillRadioGroupByPattern pat field v conf d' = Inr (r, apply_doc P d'))"
proof (cases "findFieldByLabel pat d")
  case None
  then have "findFieldByLabel pat d' = None" using doc_shape_find [OF sh, of pat] by simp
  with None have "fillRadioGroupByPattern pat field v conf d
        = Inr (not_filled (field_name field) False, apply_doc (\<lambda>j. no_write) d)"
    "fillRadioGroupByPattern pat field v conf d'
        = Inr (not_filled (field_name field) False, apply_doc (\<lambda>j. no_write) d')"
    by (simp_all add: fillRadioGroupByPattern_def)
  then show ?thesis using safe_none by blast
next
  case (Some i)
  then have f': "findFieldByLabel pat d' = Some i" using doc_shape_find [OF sh, of pat] by simp
  have i: "i < length d" using Some by (rule findFieldByLabel_bound)
  have i': "i < length d'" using f' by (rule findFieldByLabel_bound)
  note gi = group_shape_radios [OF doc_shape_nth [OF sh i]]
  show ?thesis
  proof (cases "radios (d ! i) = []")
    case True
    then have "radios (d' ! i) = []" using gi(1) by simp
    with True Some f' have "fillRadioGroupByPattern pat field v conf d
          = Inr (not_filled (field_name field) False, apply_doc (\<lambda>j. no_write) d)"
      "fillRadioGroupByPattern pat field v conf d'
          = Inr (not_filled (field_name field) False, apply_doc (\<lambda>j. no_write) d')"
      by (simp_all add: fillRadioGroupByPattern_def)
    then show ?thesis using safe_none by blast
  next
    case ne: False
    then have ne': "radios (d' ! i) \<noteq> []" using gi(1) by auto
    have fr: "find_radio patterns (radios (d' ! i)) 0 = find_radio patterns (radios (d ! i)) 0"
      for patterns
      using find_radio_labels [OF gi(3)] by simp
    note r0 = radio_result [OF \<open>findFieldByLabel pat d = Some i\<close> ne, of field v conf]
    note r0' = radio_result [OF f' ne', of field v conf, unfolded fr]
    have annotated: ?thesis
      if "fillRadioGroupByPattern pat field v conf d
            = Inr (not_filled (field_name field) True, d[i := markUnknownField (d ! i) t])"
        and "fillRadioGroupByPattern pat field v conf d'
            = Inr (not_filled (field_name field) True, d'[i := markUnknownField (d' ! i) t])"
      for t
    proof -
      let ?p = "unknown_write t"
      have "fillRadioGroupByPattern pat field v conf d
          = Inr (not_filled (field_name field) True, apply_doc (at_group i ?p) d)"
        using that(1) update_as_write [OF i, of ?p] by (simp add: unknown_group_as_write)
      moreover have "fillRadioGroupByPattern pat field v conf d'
          = Inr (not_filled (field_name field) True, apply_doc (at_group i ?p) d')"
        using that(2) update_as_write [OF i', of ?p] by (simp add: unknown_group_as_write)
      moreover have "safe_write (at_group i ?p) d" by (intro safe_at) simp
      ultimately show ?thesis by blast
    qed
    show ?thesis
    proof (cases "isUnknownValue v conf")
      case True
      show ?thesis by (rule annotated [of SelectManually]) (simp_all add: r0 r0' True)
    next
      case False
      note r = r0 [unfolded if_not_P [OF False]]
      note r' = r0' [unfolded if_not_P [OF False]]
      show ?thesis
      proof (cases "radio_patterns field v")
        case None
        then show ?thesis by (simp add: r r')
      next
        case pats: (Some patterns)
        show ?thesis
        proof (cases "find_radio patterns (radios (d ! i)) 0")
          case None
          show ?thesis
            by (rule annotated [of "NoMatchingOption v"]) (simp_all add: r r' pats None)
        next
          case (Some k)
          have k: "k < length (radios (d ! i))" using find_radio_bound [OF Some] by simp
          have lab: "radio_label (radios (d' ! i) ! k) = radio_label (radios (d ! i) ! k)"
            using gi(3) k gi(1) nth_map [of k "radios (d ! i)" radio_label]
              nth_map [of k "radios (d' ! i)" radio_label] by simp
          have c1: "set_checked i k d = apply_doc (check_write d i k) d"
            by (rule set_checked_as_write [OF refl i k])
          have c2: "set_checked i k d' = apply_doc (check_write d i k) d'"
            by (rule set_checked_as_write [OF sh i k])
          let ?t = "LowConfidence conf"
          let ?P = "if conf < CONFIDENCE_THRESHOLD
                    then (\<lambda>j. then_write (at_group i (low_write ?t) j) (check_write d i k j))
                    else check_write d i k"
          let ?r = "\<lparr>fieldName = field_name field, filled = True, confidence = conf,
                     fill_value = Some (trim (radio_label (radios (d ! i) ! k))),
                     needsReview = (conf < CONFIDENCE_THRESHOLD)\<rparr>"
          have low: "e[i := markLowConfidenceField (e ! i) ?t] = apply_doc (at_group i (low_write ?t)) e"
            if "i < length e" for e
            using update_as_write [OF that, of "low_write ?t"] markLow_as_write [of "e ! i" ?t]
            by (simp add: low_write_def)
          have a: "fillRadioGroupByPattern pat field v conf d = Inr (?r, apply_doc ?P d)"
            using low [of "apply_doc (check_write d i k) d"] i
            by (simp add: r pats Some c1 apply_doc_twice)
          have b: "fillRadioGroupByPattern pat field v conf d' = Inr (?r, apply_doc ?P d')"
            using low [of "apply_doc (check_write d i k) d'"] i'
            by (simp add: r' pats Some c2 apply_doc_twice lab)
          have s: "safe_write ?P d"
            by (rule safe_no_text)
               (simp add: check_write_def no_write_def then_write_def at_group_def low_write_def)
          show ?thesis using a b s by blast
        qed
      qed
    qed
  qed
qed

lemma call_writer_regular:
  assumes "\<And>v c d d'. doc_shape d = doc_shape d' \<Longrightarrow>
      (w v c d = Inl TypeError \<and> w v c d' = Inl TypeError)
      \<or> (\<exists>r P. safe_write P d \<and> w v c d = Inr (r, apply_doc P d)
             \<and> w v c d' = Inr (r, apply_doc P d'))"
  shows "regular_handler (call_writer f w)"
  unfolding regular_handler_def
proof (intro allI impI)
  fix d d' :: document
  assume sh: "doc_shape d = doc_shape d'"
  have thrown: "\<exists>P. safe_write P d
      \<and> ((\<exists>e. call_writer f w d = Inl (e, apply_doc P d)
              \<and> call_writer f w d' = Inl (e, apply_doc P d'))
         \<or> (\<exists>r. call_writer f w d = Inr (r, apply_doc P d)
              \<and> call_writer f w d' = Inr (r, apply_doc P d')))"
    if "call_writer f w d = Inl (TypeError, d)" "call_writer f w d' = Inl (TypeError, d')"
  proof -
    from that have "call_writer f w d = Inl (TypeError, apply_doc (\<lambda>j. no_write) d)"
      "call_writer f w d' = Inl (TypeError, apply_doc (\<lambda>j. no_write) d')"
      by simp_all
    then show ?thesis using safe_none by blast
  qed
  show "\<exists>P. safe_write P d
      \<and> ((\<exists>e. call_writer f w d = Inl (e, apply_doc P d)
              \<and> call_writer f w d' = Inl (e, apply_doc P d'))
         \<or> (\<exists>r. call_writer f w d = Inr (r, apply_doc P d)
              \<and> call_writer f w d' = Inr (r, apply_doc P d')))"
  proof (cases f)
    case None
    show ?thesis by (rule thrown) (simp_all add: call_writer_def None)
  next
    case (Some pf)
    from assms [OF sh, of "pf_value pf" "pf_confidence pf"] show ?thesis
    proof
      assume "w (pf_value pf) (pf_confidence pf) d = Inl TypeError
          \<and> w (pf_value pf) (pf_confidence pf) d' = Inl TypeError"
      then show ?thesis by (intro thrown) (simp_all add: call_writer_def Some)
    next
      assume "\<exists>r P. safe_write P d
          \<and> w (pf_value pf) (pf_confidence pf) d = Inr (r, apply_doc P d)
          \<and> w (pf_value pf) (pf_confidence pf) d' = Inr (r, apply_doc P d')"
      then obtain r P where P: "safe_write P d"
        and a: "w (pf_value pf) (pf_confidence pf) d = Inr (r, apply_doc P d)"
        and b: "w (pf_value pf) (pf_confidence pf) d' = Inr (r, apply_doc P d')"
        by blast
      have "call_writer f w d = Inr (Some r, apply_doc P d)"
        by (simp add: call_writer_def Some a)
      moreover have "call_writer f w d' = Inr (Some r, apply_doc P d')"
        by (simp add: call_writer_def Some b)
      ultimately show ?thesis using P by blast
    qed
  qed
qed

lemma returning_regular:
  assumes "fst (w d) = fst (w d')
      \<and> (\<exists>P. safe_write P d \<and> snd (w d) = apply_doc P d \<and> snd (w d') = apply_doc P d')"
  shows "((Inr (w d) :: js_error + FillResult \<times> document) = Inl TypeError
          \<and> (Inr (w d') :: js_error + FillResult \<times> document) = Inl TypeError)
      \<or> (\<exists>r P. safe_write P d
             \<and> (Inr (w d) :: js_error + FillResult \<times> document) = Inr (r, apply_doc P d)
             \<and> (Inr (w d') :: js_error + FillResult \<times> document) = Inr (r, apply_doc P d'))"
proof -
  from assms obtain P where P: "safe_write P d" "snd (w d) = apply_doc P d"
    "snd (w d') = apply_doc P d'" and r: "fst (w d) = fst (w d')"
    by blast
  have "w d = (fst (w d), apply_doc P d)" using P(2) by (cases "w d") simp
  moreover have "w d' = (fst (w d), apply_doc P d')" using P(3) r by (cases "w d'") simp
  ultimately show ?thesis using P(1) by auto
qed

lemma run_fields_regular:
  assumes "\<forall>(p, n, h) \<in> set tbl. regular_handler h" and "doc_shape d = doc_shape d'"
  shows "\<exists>rs P. run_fields tbl acc d = (acc @ rs, apply_doc P d)
           \<and> run_fields tbl acc d' = (acc @ rs, apply_doc P d')
           \<and> doc_shape (apply_doc P d) = doc_shape d"
  using assms
proof (induction tbl arbitrary: acc d d')
  case Nil
  have "run_fields [] acc d = (acc @ [], apply_doc (\<lambda>j. no_write) d)"
    "run_fields [] acc d' = (acc @ [], apply_doc (\<lambda>j. no_write) d')"
    "doc_shape (apply_doc (\<lambda>j. no_write) d) = doc_shape d"
    by simp_all
  then show ?case by blast
next
  case (Cons x tbl)
  obtain p n h where x: "x = (p, n, h)" by (cases x) auto
  from Cons.prems have reg: "\<forall>(p, n, h) \<in> set tbl. regular_handler h" and h: "regular_handler h"
    by (auto simp: x)
  note sh = \<open>doc_shape d = doc_shape d'\<close>
  from h sh obtain P0 where safe: "safe_write P0 d"
    and alt: "(\<exists>e. h d = Inl (e, apply_doc P0 d) \<and> h d' = Inl (e, apply_doc P0 d'))
       \<or> (\<exists>r. h d = Inr (r, apply_doc P0 d) \<and> h d' = Inr (r, apply_doc P0 d'))"
    unfolding regular_handler_def by blast
  have s1: "doc_shape (apply_doc P0 d) = doc_shape d" using safe by (rule doc_shape_apply)
  have s2: "doc_shape (apply_doc P0 d') = doc_shape d'"
    using safe_write_shape [OF sh safe] by (rule doc_shape_apply)
  have s: "doc_shape (apply_doc P0 d) = doc_shape (apply_doc P0 d')" using s1 s2 sh by simp
  have step: "\<exists>rs P. run_fields tbl acc' (apply_doc P0 d) = (acc' @ rs, apply_doc P (apply_doc P0 d))
           \<and> run_fields tbl acc' (apply_doc P0 d') = (acc' @ rs, apply_doc P (apply_doc P0 d'))
           \<and> doc_shape (apply_doc P (apply_doc P0 d)) = doc_shape (apply_doc P0 d)" for acc'
    by (rule Cons.IH [OF reg s])
  have continue: ?case
    if "run_fields (x # tbl) acc d = run_fields tbl (acc @ pre) (apply_doc P0 d)"
      and "run_fields (x # tbl) acc d' = run_fields tbl (acc @ pre) (apply_doc P0 d')" for pre
  proof -
    from step [of "acc @ pre"] obtain rs P where
      a: "run_fields tbl (acc @ pre) (apply_doc P0 d) = ((acc @ pre) @ rs, apply_doc P (apply_doc P0 d))"
      and b: "run_fields tbl (acc @ pre) (apply_doc P0 d')
          = ((acc @ pre) @ rs, apply_doc P (apply_doc P0 d'))"
      and c: "doc_shape (apply_doc P (apply_doc P0 d)) = doc_shape (apply_doc P0 d)"
      by blast
    let ?Q = "\<lambda>j. then_write (P j) (P0 j)"
    have "run_fields (x # tbl) acc d = (acc @ (pre @ rs), apply_doc ?Q d)"
      using that(1) a by (simp add: apply_doc_twice)
    moreover have "run_fields (x # tbl) acc d' = (acc @ (pre @ rs), apply_doc ?Q d')"
      using that(2) b by (simp add: apply_doc_twice)
    moreover have "doc_shape (apply_doc ?Q d) = doc_shape d"
      using c s1 by (simp add: apply_doc_twice)
    ultimately show ?thesis by blast
  qed
  from alt show ?case
  proof
    assume "\<exists>e. h d = Inl (e, apply_doc P0 d) \<and> h d' = Inl (e, apply_doc P0 d')"
    then show ?case by (intro continue [of "[]"]) (auto simp: x)
  next
    assume "\<exists>r. h d = Inr (r, apply_doc P0 d) \<and> h d' = Inr (r, apply_doc P0 d')"
    then obtain r where r: "h d = Inr (r, apply_doc P0 d)" "h d' = Inr (r, apply_doc P0 d')"
      by blast
    show ?case
    proof (cases r)
      case None
      with r show ?thesis by (intro continue [of "[]"]) (simp_all add: x)
    next
      case (Some res)
      with r show ?thesis by (intro continue [of "[res]"]) (simp_all add: x)
    qed
  qed
qed

lemma run_fields_twice:
  assumes "\<forall>(p, n, h) \<in> set tbl. regular_handler h"
  shows "run_fields tbl [] (snd (run_fields tbl [] d)) = run_fields tbl [] d"
proof -
  from run_fields_regular [OF assms refl, of "[]" d] obtain rs0 P0 where
    first: "run_fields tbl [] d = ([] @ rs0, apply_doc P0 d)"
    and shape: "doc_shape (apply_doc P0 d) = doc_shape d"
    by blast
  from run_fields_regular [OF assms shape [symmetric], of "[]"] obtain rs P where
    a: "run_fields tbl [] d = ([] @ rs, apply_doc P d)"
    and b: "run_fields tbl [] (apply_doc P0 d) = ([] @ rs, apply_doc P (apply_doc P0 d))"
    by blast
  from first a have e: "apply_doc P0 d = apply_doc P d" by simp
  have "run_fields tbl [] (snd (run_fields tbl [] d)) = run_fields tbl [] (apply_doc P d)"
    using a by simp
  also have "\<dots> = ([] @ rs, apply_doc P (apply_doc P d))" using b e by simp
  also have "\<dots> = ([] @ rs, apply_doc P d)" by (simp add: apply_doc_idem)
  also have "\<dots> = run_fields tbl [] d" using a by simp
  finally show ?thesis .
qed

lemma text_handler_regular:
  "regular_handler (call_writer f
     (\<lambda>v c d. Inr (fillTextFieldByPattern pat name (g v) c always d)))"
  by (rule call_writer_regular) (rule returning_regular, rule text_regular)

lemma dropdown_handler_regular:
  "regular_handler (call_writer f (\<lambda>v c d. Inr (fillDropdownByPattern pat name v c d)))"
  by (rule call_writer_regular) (rule returning_regular, rule dropdown_regular)

lemma radio_handler_regular:
  "regular_handler (call_writer f (fillRadioGroupByPattern pat field))"
  by (rule call_writer_regular) (rule radio_regular)

lemma fieldMappings_regular: "\<forall>(p, n, h) \<in> set (fieldMappings parse data). regular_handler h"
  using text_handler_regular [where g = "\<lambda>v. v"] text_handler_regular [where g = "formatDate parse"]
  by (simp add: fieldMappings_def dropdown_handler_regular radio_handler_regular)

lemma fillExpenseForm_twice:
  "fillExpenseForm parse data (snd (fillExpenseForm parse data doc))
     = fillExpenseForm parse data doc"
proof -
  have d: "snd (fillExpenseForm parse data doc) = snd (run_fields (fieldMappings parse data) [] doc)"
    by (rule fillExpenseForm_document)
  have "run_fields (fieldMappings parse data) [] (snd (run_fields (fieldMappings parse data) [] doc))
      = run_fields (fieldMappings parse data) [] doc"
    by (rule run_fields_twice [OF fieldMappings_regular])
  then show ?thesis unfolding d by (simp add: fillExpenseForm_def)
qed

lemma date_pass:
  "fillExpenseForm march_parser date_record date_doc =
     (\<lparr>results = [\<lparr>fieldName = ''Date of Expense'', filled = True, confidence = 0.9,
                    fill_value = Some ''03/05/2024'', needsReview = False\<rparr>],
       totalFields = 10, filledFields = 1, lowConfidenceFields = 0\<rparr>,
      [(text_group ''Date of Expense'')
         \<lparr>text_field := Some \<lparr>input_value = ''03/05/2024'', data_autofilled = True\<rparr>\<rparr>])"
proof -
  have fd: "findFieldByLabel [''Date of Expense''] date_doc = Some 0"
    by (simp add: findFieldByLabel_def date_doc_def text_group_def string_defs)
  have tf: "text_field (date_doc ! 0) = Some \<lparr>input_value = [], data_autofilled = False\<rparr>"
    by (simp add: date_doc_def text_group_def)
  have fm: "formatDate march_parser ''2024-03-05'' = ''03/05/2024''"
    by (simp add: formatDate_def march_parser_def is_mmddyyyy_def is_digit_def show_nat.simps
          pad2_def show_int_def digit_char_def)
  have u: "usable_value ''03/05/2024''"
    by (simp add: usable_value_def is_unknown_marker_def string_defs)
  have w: "fillTextFieldByPattern [''Date of Expense''] ''Date of Expense'' ''03/05/2024'' c False
        date_doc
      = (\<lparr>fieldName = ''Date of Expense'', filled = True, confidence = c,
           fill_value = Some ''03/05/2024'', needsReview = False\<rparr>,
         [(text_group ''Date of Expense'')
            \<lparr>text_field := Some \<lparr>input_value = ''03/05/2024'', data_autofilled = True\<rparr>\<rparr>])"
    if "UNKNOWN_THRESHOLD \<le> c" "CONFIDENCE_THRESHOLD \<le> c" for c
    unfolding text_result [OF fd tf]
    using that u
    by (simp add: isUnknownValue_iff holds_foreign_value_def write_text_def date_doc_def
          text_group_def)
  have run: "run_fields (fieldMappings march_parser date_record) [] date_doc =
     ([\<lparr>fieldName = ''Date of Expense'', filled = True, confidence = 0.9,
         fill_value = Some ''03/05/2024'', needsReview = False\<rparr>],
      [(text_group ''Date of Expense'')
         \<lparr>text_field := Some \<lparr>input_value = ''03/05/2024'', data_autofilled = True\<rparr>\<rparr>])"
    by (simp add: fieldMappings_def date_record_def call_writer_def fm w
          UNKNOWN_THRESHOLD_def CONFIDENCE_THRESHOLD_def)
  show ?thesis
    by (simp add: fillExpenseForm_def run) (simp add: fieldMappings_def)
qed

text \<open>
  Claim C2, as the code has it. A second fill pass with the same record, run on the document
  the first pass left, returns the same FillSummary as the first pass, so a field the first
  pass filled and marked is written again and reported filled again, and it leaves the
  document, the value of every control and every annotation, exactly as the first pass left
  it.
\<close>

theorem C2_second_pass_repeats_first:
  "fst (fillExpenseForm parse data (snd (fillExpenseForm parse data doc)))
     = fst (fillExpenseForm parse data doc)
   \<and> snd (fillExpenseForm parse data (snd (fillExpenseForm parse data doc)))
     = snd (fillExpenseForm parse data doc)"
  by (simp add: fillExpenseForm_twice)

text \<open>
  Claim C2 as stated fails on its exception: the first pass fills the date and sets the
  provenance marker on its input, and the second pass reports the field filled again, not
  \<open>filled = false\<close>.
\<close>

theorem C2_refilled_field_reported_filled_counterexample:
  "map filled (results (fst (fillExpenseForm march_parser date_record date_doc))) = [True]
   \<and> text_field (snd (fillExpenseForm march_parser date_record date_doc) ! 0)
       = Some \<lparr>input_value = ''03/05/2024'', data_autofilled = True\<rparr>
   \<and> map filled (results (fst (fillExpenseForm march_parser date_record
         (snd (fillExpenseForm march_parser date_record date_doc))))) = [True]"
proof -
  have "fillExpenseForm march_parser date_record
          (snd (fillExpenseForm march_parser date_record date_doc))
      = fillExpenseForm march_parser date_record date_doc"
    by (rule fillExpenseForm_twice)
  then show ?thesis by (simp add: date_pass)
qed

end
